theory Spec2Isabelle
  imports Main
begin

section \<open>Importable pools of go-zfs: the report parser and the import action\<close>

text \<open>
  The development embeds \<^verbatim>\<open>ExportedZpool.Import\<close>, \<^verbatim>\<open>ExportedZpool.parseLines\<close> and
  \<^verbatim>\<open>ListExportedZpools\<close> of the package's zpool source, in its two variants: the
  current one, which resolves device names and knows the \<^verbatim>\<open>config:\<close> marker, and the
  earlier one of \<^verbatim>\<open>zpool.go\<close>, which logs every line.

  Go strings are byte sequences and are modelled as \<open>string\<close>. A run-time panic
  (an index out of range) and an error of the Command Runner are values of the type
  \<open>error\<close>; a function that can fail returns \<open>error + 'a\<close>.
\<close>

subsection \<open>Data\<close>

datatype error = Panic | ExecError string

record Vdev =
  Vdev_Name :: string
  Vdev_Health :: string

record VdevGroup =
  Group :: Vdev
  Devices :: "Vdev list"

text \<open>
  The record of an importable pool. The element type of \<open>Vdevs\<close> is a parameter: the
  current variant appends the reference \<^verbatim>\<open>curVdevGroup\<close> itself (an address in the
  store of groups, a \<open>nat\<close>), the earlier variant appends the dereferenced value
  \<^verbatim>\<open>*curVdevGroup\<close> (a \<open>VdevGroup\<close>).
\<close>

record 'g ExportedZpool =
  Name :: string
  Id :: string
  State :: string
  Status :: string
  Action :: string
  Vdevs :: "'g list"

definition ExportedZpool_zero :: "'g ExportedZpool" where
  "ExportedZpool_zero =
     \<lparr>Name = '''', Id = '''', State = '''', Status = '''', Action = '''', Vdevs = []\<rparr>"

text \<open>
  The state of one run of \<^verbatim>\<open>parseLines\<close>: the record behind the receiver, the store
  of the groups allocated by \<^verbatim>\<open>&VdevGroup{...}\<close> (an address is an index of the
  store, an allocation appends), and the locals of the function. The earlier variant
  has no \<^verbatim>\<open>configFound\<close>.
\<close>

record 'g scan_base =
  ez :: "'g ExportedZpool"
  heap :: "VdevGroup list"
  curVdevGroup :: "nat option"
  actionFound :: bool
  loc :: nat

record 'g scan = "'g scan_base" +
  configFound :: bool

subsection \<open>Library functions and helpers\<close>

text \<open>\<^verbatim>\<open>strings.Join(elems, sep)\<close>.\<close>

fun Join :: "string list \<Rightarrow> string \<Rightarrow> string" where
  "Join [] sep = ''''"
| "Join [x] sep = x"
| "Join (x # y # ys) sep = x @ sep @ Join (y # ys) sep"

text \<open>\<^verbatim>\<open>strings.Split(s, sep)\<close> for a separator of one byte.\<close>

fun Split :: "string \<Rightarrow> char \<Rightarrow> string list" where
  "Split [] sep = [[]]"
| "Split (c # cs) sep =
     (if c = sep then [] # Split cs sep
      else (case Split cs sep of w # ws \<Rightarrow> (c # w) # ws | [] \<Rightarrow> [[c]]))"

text \<open>\<^verbatim>\<open>strings.HasPrefix\<close> and \<^verbatim>\<open>strings.Contains\<close>.\<close>

fun HasPrefix :: "string \<Rightarrow> string \<Rightarrow> bool" where
  "HasPrefix s [] = True"
| "HasPrefix [] (p # ps) = False"
| "HasPrefix (c # cs) (p # ps) = (c = p \<and> HasPrefix cs ps)"

fun Contains :: "string \<Rightarrow> string \<Rightarrow> bool" where
  "Contains [] substr = HasPrefix [] substr"
| "Contains (c # cs) substr = (HasPrefix (c # cs) substr \<or> Contains cs substr)"

text \<open>
  Modelled from the spec: \<^verbatim>\<open>setString\<close> is called by \<^verbatim>\<open>parseLines\<close> but its
  declaration is not part of the sources at hand. The specification describes it as the
  helper that "conditionally assign[s] a string field only if not already set
  (idempotent first write wins semantics)". A Go string field that is not set holds
  the empty string. The function returns the new content of the field.
\<close>

definition setString :: "string \<Rightarrow> string \<Rightarrow> string" where
  "setString field v = (if field = '''' then v else field)"

subsection \<open>The block scanner \<^verbatim>\<open>parseLines\<close>, current variant\<close>

text \<open>
  \<^verbatim>\<open>IsVdevGroup\<close> and \<^verbatim>\<open>ResolveDeviceName\<close> are declared outside the sources at hand
  and are parameters of the model. The cases of the \<^verbatim>\<open>switch\<close> are tried in the
  order of the source. Reading \<^verbatim>\<open>line[1]\<close> of a line of one token panics.
\<close>

definition Vdev_of :: "(string \<Rightarrow> string) \<Rightarrow> string list \<Rightarrow> Vdev" where
  "Vdev_of ResolveDeviceName line =
     \<lparr>Vdev_Name = ResolveDeviceName (line ! 0), Vdev_Health = line ! 1\<rparr>"

definition fileordisk :: VdevGroup where
  "fileordisk = \<lparr>Group = \<lparr>Vdev_Name = ''fileordisk'', Vdev_Health = ''''\<rparr>, Devices = []\<rparr>"

text \<open>
  \<^verbatim>\<open>curVdevGroup = &VdevGroup{...}; ez.Vdevs = append(ez.Vdevs, curVdevGroup)\<close>:
  the group is allocated at a fresh address, which becomes the current group and the
  last entry of the record's sequence.
\<close>

definition open_group :: "VdevGroup \<Rightarrow> nat scan \<Rightarrow> nat scan" where
  "open_group g s =
     s\<lparr>heap := heap s @ [g],
       curVdevGroup := Some (length (heap s)),
       ez := (ez s)\<lparr>Vdevs := Vdevs (ez s) @ [length (heap s)]\<rparr>\<rparr>"

text \<open>\<^verbatim>\<open>curVdevGroup.Devices = append(curVdevGroup.Devices, device)\<close>, a write through the reference.\<close>

definition append_device :: "nat \<Rightarrow> Vdev \<Rightarrow> ('g, 'b) scan_base_scheme \<Rightarrow> ('g, 'b) scan_base_scheme" where
  "append_device a d s =
     s\<lparr>heap := (heap s)[a := (heap s ! a)\<lparr>Devices := Devices (heap s ! a) @ [d]\<rparr>]\<rparr>"

definition parseLines_switch ::
  "(string \<Rightarrow> bool) \<Rightarrow> (string \<Rightarrow> string) \<Rightarrow> nat scan \<Rightarrow> string list \<Rightarrow> error + nat scan" where
  "parseLines_switch IsVdevGroup ResolveDeviceName s line =
     (if line ! 0 = ''id:'' then
        (if length line \<le> 1 then Inl Panic
         else Inr (s\<lparr>ez := (ez s)\<lparr>Id := setString (Id (ez s)) (line ! 1)\<rparr>\<rparr>))
      else if line ! 0 = ''state:'' then
        Inr (s\<lparr>ez := (ez s)\<lparr>State := setString (State (ez s)) (Join (drop 1 line) '' '')\<rparr>\<rparr>)
      else if line ! 0 = ''status:'' then
        Inr (s\<lparr>ez := (ez s)\<lparr>Status := setString (Status (ez s)) (Join (drop 1 line) '' '')\<rparr>\<rparr>)
      else if line ! 0 = ''action:'' then
        Inr (s\<lparr>ez := (ez s)\<lparr>Action := setString (Action (ez s)) (Join (drop 1 line) '' '')\<rparr>,
               actionFound := True\<rparr>)
      else if line ! 0 = Name (ez s) then Inr s
      else if line ! 0 = ''config:'' then Inr (s\<lparr>configFound := True\<rparr>)
      else if actionFound s \<and> \<not> configFound s then
        Inr (s\<lparr>ez := (ez s)\<lparr>Action := Action (ez s) @ '' '' @ Join line '' ''\<rparr>,
               actionFound := False\<rparr>)
      else if IsVdevGroup (Split (line ! 0) CHR ''-'' ! 0) then
        (if length line \<le> 1 then Inl Panic
         else Inr (open_group \<lparr>Group = Vdev_of ResolveDeviceName line, Devices = []\<rparr> s))
      else
        (let s1 = (case curVdevGroup s of None \<Rightarrow> open_group fileordisk s | Some a \<Rightarrow> s)
         in if length line \<le> 1 then Inl Panic
            else (case curVdevGroup s1 of
                    None \<Rightarrow> Inl Panic
                  | Some a \<Rightarrow> Inr (append_device a (Vdev_of ResolveDeviceName line) s1))))"

text \<open>
  The loop. A blank line only advances the counter; the block-start marker ends the
  scan with the counter before the marker; the end of the lines ends it with the
  number of lines.
\<close>

fun parseLines_loop ::
  "(string \<Rightarrow> bool) \<Rightarrow> (string \<Rightarrow> string) \<Rightarrow> nat scan \<Rightarrow> string list list \<Rightarrow>
     error + (nat scan \<times> nat)" where
  "parseLines_loop IsVdevGroup ResolveDeviceName s [] = Inr (s, loc s)"
| "parseLines_loop IsVdevGroup ResolveDeviceName s (line # lines) =
     (let s0 = s\<lparr>loc := loc s + 1\<rparr> in
      if length line = 0 then parseLines_loop IsVdevGroup ResolveDeviceName s0 lines
      else if line ! 0 = ''pool:'' then Inr (s0, loc s0 - 1)
      else (case parseLines_switch IsVdevGroup ResolveDeviceName s0 line of
              Inl e \<Rightarrow> Inl e
            | Inr s1 \<Rightarrow> parseLines_loop IsVdevGroup ResolveDeviceName s1 lines))"

definition scan_init :: "VdevGroup list \<Rightarrow> nat ExportedZpool \<Rightarrow> nat scan" where
  "scan_init h e =
     \<lparr>ez = e, heap = h, curVdevGroup = None, actionFound = False, loc = 0, configFound = False\<rparr>"

text \<open>
  \<^verbatim>\<open>ez.parseLines(lines)\<close> on the store \<open>h\<close> and the record \<open>e\<close>: the store and the
  record after the call, and the returned count.
\<close>

definition parseLines ::
  "(string \<Rightarrow> bool) \<Rightarrow> (string \<Rightarrow> string) \<Rightarrow> VdevGroup list \<Rightarrow> nat ExportedZpool \<Rightarrow>
     string list list \<Rightarrow> error + (VdevGroup list \<times> nat ExportedZpool \<times> nat)" where
  "parseLines IsVdevGroup ResolveDeviceName h e lines =
     (case parseLines_loop IsVdevGroup ResolveDeviceName (scan_init h e) lines of
        Inl err \<Rightarrow> Inl err
      | Inr (s, n) \<Rightarrow> Inr (heap s, ez s, n))"

subsection \<open>The block scanner \<^verbatim>\<open>parseLines\<close>, earlier variant of \<^verbatim>\<open>zpool.go\<close>\<close>

text \<open>
  The earlier variant has no \<^verbatim>\<open>config:\<close> case, stores the raw tokens, and appends
  the value \<^verbatim>\<open>*curVdevGroup\<close> to the record: the record holds a copy made when the
  group is opened, and the later writes through \<^verbatim>\<open>curVdevGroup\<close> reach the store
  only. A device line is dropped while no group is open. The calls of
  \<^verbatim>\<open>log.Println\<close> have no effect on the result and are left out.
\<close>

definition parseLines_old_switch ::
  "(string \<Rightarrow> bool) \<Rightarrow> VdevGroup scan_base \<Rightarrow> string list \<Rightarrow> error + VdevGroup scan_base" where
  "parseLines_old_switch IsVdevGroup s line =
     (if line ! 0 = ''id:'' then
        (if length line \<le> 1 then Inl Panic
         else Inr (s\<lparr>ez := (ez s)\<lparr>Id := setString (Id (ez s)) (line ! 1)\<rparr>\<rparr>))
      else if line ! 0 = ''state:'' then
        Inr (s\<lparr>ez := (ez s)\<lparr>State := setString (State (ez s)) (Join (drop 1 line) '' '')\<rparr>\<rparr>)
      else if line ! 0 = ''status:'' then
        Inr (s\<lparr>ez := (ez s)\<lparr>Status := setString (Status (ez s)) (Join (drop 1 line) '' '')\<rparr>\<rparr>)
      else if line ! 0 = ''action:'' then
        Inr (s\<lparr>ez := (ez s)\<lparr>Action := setString (Action (ez s)) (Join (drop 1 line) '' '')\<rparr>,
               actionFound := True\<rparr>)
      else if line ! 0 = Name (ez s) then Inr s
      else if actionFound s then
        Inr (s\<lparr>ez := (ez s)\<lparr>Action := Action (ez s) @ '' '' @ Join line '' ''\<rparr>,
               actionFound := False\<rparr>)
      else if IsVdevGroup (Split (line ! 0) CHR ''-'' ! 0) then
        (if length line \<le> 1 then Inl Panic
         else
           (let a = length (heap s);
                s1 = s\<lparr>heap := heap s @
                          [\<lparr>Group = \<lparr>Vdev_Name = line ! 0, Vdev_Health = line ! 1\<rparr>, Devices = []\<rparr>],
                        curVdevGroup := Some a\<rparr>
            in Inr (s1\<lparr>ez := (ez s1)\<lparr>Vdevs := Vdevs (ez s1) @ [heap s1 ! a]\<rparr>\<rparr>)))
      else
        (case curVdevGroup s of
           None \<Rightarrow> Inr s
         | Some a \<Rightarrow>
             (if length line \<le> 1 then Inl Panic
              else Inr (append_device a \<lparr>Vdev_Name = line ! 0, Vdev_Health = line ! 1\<rparr> s))))"

fun parseLines_old_loop ::
  "(string \<Rightarrow> bool) \<Rightarrow> VdevGroup scan_base \<Rightarrow> string list list \<Rightarrow>
     error + (VdevGroup scan_base \<times> nat)" where
  "parseLines_old_loop IsVdevGroup s [] = Inr (s, loc s)"
| "parseLines_old_loop IsVdevGroup s (line # lines) =
     (let s0 = s\<lparr>loc := loc s + 1\<rparr> in
      if length line = 0 then parseLines_old_loop IsVdevGroup s0 lines
      else if line ! 0 = ''pool:'' then Inr (s0, loc s0 - 1)
      else (case parseLines_old_switch IsVdevGroup s0 line of
              Inl e \<Rightarrow> Inl e
            | Inr s1 \<Rightarrow> parseLines_old_loop IsVdevGroup s1 lines))"

definition parseLines_old ::
  "(string \<Rightarrow> bool) \<Rightarrow> VdevGroup list \<Rightarrow> VdevGroup ExportedZpool \<Rightarrow> string list list \<Rightarrow>
     error + (VdevGroup list \<times> VdevGroup ExportedZpool \<times> nat)" where
  "parseLines_old IsVdevGroup h e lines =
     (case parseLines_old_loop IsVdevGroup
             \<lparr>ez = e, heap = h, curVdevGroup = None, actionFound = False, loc = 0\<rparr> lines of
        Inl err \<Rightarrow> Inl err
      | Inr (s, n) \<Rightarrow> Inr (heap s, ez s, n))"

subsection \<open>\<^verbatim>\<open>Import\<close> and \<^verbatim>\<open>ListExportedZpools\<close>\<close>

text \<open>
  The Command Runner \<^verbatim>\<open>zpoolOutput\<close> starts an external process. It is a parameter:
  a function from the arguments and the state of the world to the tokenised lines or an
  error message, and the state of the world after the call.
\<close>

type_synonym 'w runner = "string list \<Rightarrow> 'w \<Rightarrow> (string + string list list) \<times> 'w"

definition Import_args :: "'g ExportedZpool \<Rightarrow> bool \<Rightarrow> string list" where
  "Import_args e tryForce =
     (let importFlags = ''-N'';
          importFlags = (if tryForce then importFlags @ ''f'' else importFlags);
          importFlags = (if Contains (State e) ''DESTROYED'' then importFlags @ ''D''
                         else importFlags)
      in [''import'', importFlags, Id e])"

text \<open>\<open>None\<close> is the \<^verbatim>\<open>nil\<close> error.\<close>

definition Import :: "'w runner \<Rightarrow> 'g ExportedZpool \<Rightarrow> bool \<Rightarrow> 'w \<Rightarrow> string option \<times> 'w" where
  "Import zpoolOutput e tryForce w =
     (case zpoolOutput (Import_args e tryForce) w of
        (Inl err, w1) \<Rightarrow> (Some err, w1)
      | (Inr out, w1) \<Rightarrow> (None, w1))"

text \<open>
  The loop of the driver over one report, with the cursor \<open>i\<close>. \<^verbatim>\<open>out[i][0]\<close> is
  read without a check of the length and panics on a blank line; so does
  \<^verbatim>\<open>out[i][1]\<close> on a marker line without a name.
\<close>

function ListExportedZpools_loop ::
  "(string \<Rightarrow> bool) \<Rightarrow> (string \<Rightarrow> string) \<Rightarrow> string list list \<Rightarrow> nat \<Rightarrow>
     VdevGroup list \<Rightarrow> nat ExportedZpool list \<Rightarrow>
     error + (VdevGroup list \<times> nat ExportedZpool list)" where
  "ListExportedZpools_loop IsVdevGroup ResolveDeviceName out i h pools =
     (if i < length out then
        (if length (out ! i) = 0 then Inl Panic
         else if out ! i ! 0 = ''pool:'' then
           (if length (out ! i) \<le> 1 then Inl Panic
            else
              (case parseLines IsVdevGroup ResolveDeviceName h
                      (ExportedZpool_zero\<lparr>Name := out ! i ! 1\<rparr>) (drop (i + 1) out) of
                 Inl e \<Rightarrow> Inl e
               | Inr (h1, e1, linesParsed) \<Rightarrow>
                   ListExportedZpools_loop IsVdevGroup ResolveDeviceName out
                     (i + linesParsed + 1) h1 (pools @ [e1])))
         else ListExportedZpools_loop IsVdevGroup ResolveDeviceName out (i + 1) h pools)
      else Inr (h, pools))"
  by pat_completeness auto
termination
  by (relation "measure (\<lambda>(G, R, out, i, h, pools). length out - i)") auto

definition ListExportedZpools ::
  "'w runner \<Rightarrow> (string \<Rightarrow> bool) \<Rightarrow> (string \<Rightarrow> string) \<Rightarrow> VdevGroup list \<Rightarrow> 'w \<Rightarrow>
     (error + (VdevGroup list \<times> nat ExportedZpool list)) \<times> 'w" where
  "ListExportedZpools zpoolOutput IsVdevGroup ResolveDeviceName h w =
     (case zpoolOutput [''import''] w of
        (Inl err, w1) \<Rightarrow> (Inl (ExecError err), w1)
      | (Inr out, w1) \<Rightarrow>
          (case ListExportedZpools_loop IsVdevGroup ResolveDeviceName out 0 h [] of
             Inl e \<Rightarrow> (Inl e, w1)
           | Inr (h1, pools) \<Rightarrow>
               (case zpoolOutput [''import'', ''-D''] w1 of
                  (Inl err, w2) \<Rightarrow> (Inl (ExecError err), w2)
                | (Inr out2, w2) \<Rightarrow>
                    (ListExportedZpools_loop IsVdevGroup ResolveDeviceName out2 0 h1 pools, w2))))"

subsection \<open>Instances of the parameters, for evaluation\<close>

text \<open>
  Modelled from the spec: \<^verbatim>\<open>IsVdevGroup\<close> is not part of the sources at hand; the
  specification names the recognised group kinds as "mirror, raidz variants".
\<close>

definition IsVdevGroup_kinds :: "string \<Rightarrow> bool" where
  "IsVdevGroup_kinds name =
     (name = ''mirror'' \<or> name = ''raidz'' \<or> name = ''raidz1'' \<or> name = ''raidz2''
      \<or> name = ''raidz3'')"

text \<open>A resolver that returns the token as it is.\<close>

definition ResolveDeviceName_raw :: "string \<Rightarrow> string" where
  "ResolveDeviceName_raw tok = tok"

text \<open>
  A Command Runner that replays a script: each call appends its arguments to a log and
  takes the next result of the script.
\<close>

definition zpoolOutput_replay ::
  "(string list list \<times> (string + string list list) list) runner" where
  "zpoolOutput_replay args w =
     (case snd w of
        [] \<Rightarrow> (Inl ''exit status 1'', (fst w @ [args], []))
      | r # rs \<Rightarrow> (r, (fst w @ [args], rs)))"

subsection \<open>Notions used by the properties\<close>

text \<open>
  A block-start marker is a line whose first token is \<^verbatim>\<open>pool:\<close>. The block of a
  line sequence is the part before the first marker; its length is the 0-based index
  of that marker, or the number of lines when there is no marker.
\<close>

definition is_block_start :: "string list \<Rightarrow> bool" where
  "is_block_start line = (line \<noteq> [] \<and> line ! 0 = ''pool:'')"

definition block_of :: "string list list \<Rightarrow> string list list" where
  "block_of lines = takeWhile (\<lambda>l. \<not> is_block_start l) lines"

definition first_block_start :: "string list list \<Rightarrow> nat" where
  "first_block_start lines = length (block_of lines)"

text \<open>
  The structural lines of a line sequence: the lines of the block that reach the last
  two branches of the \<^verbatim>\<open>switch\<close> (group header or device). A line is not
  structural when it is blank, starts with a header key, with the name of the pool or
  with \<^verbatim>\<open>config:\<close>, or is taken as the continuation of the action text, which
  happens to the first other line after an \<^verbatim>\<open>action:\<close> line while no
  \<^verbatim>\<open>config:\<close> line was seen. The two flags are those of the scanner.
\<close>

fun structural_lines :: "string \<Rightarrow> bool \<Rightarrow> bool \<Rightarrow> string list list \<Rightarrow> string list list" where
  "structural_lines name af cf [] = []"
| "structural_lines name af cf (l # ls) =
     (if l = [] then structural_lines name af cf ls
      else if l ! 0 = ''pool:'' then []
      else if l ! 0 = ''id:'' \<or> l ! 0 = ''state:'' \<or> l ! 0 = ''status:'' then
        structural_lines name af cf ls
      else if l ! 0 = ''action:'' then structural_lines name True cf ls
      else if l ! 0 = name then structural_lines name af cf ls
      else if l ! 0 = ''config:'' then structural_lines name af True ls
      else if af \<and> \<not> cf then structural_lines name False cf ls
      else l # structural_lines name af cf ls)"

text \<open>
  The lines of which the scanner reads the second token are the \<^verbatim>\<open>id:\<close> lines and
  the structural lines of the block. A line sequence is scannable when each of them
  has a second token.
\<close>

definition scannable :: "string \<Rightarrow> bool \<Rightarrow> bool \<Rightarrow> string list list \<Rightarrow> bool" where
  "scannable name af cf lines =
     (list_all (\<lambda>l. 2 \<le> length l)
        (filter (\<lambda>l. l \<noteq> [] \<and> l ! 0 = ''id:'') (block_of lines))
      \<and> list_all (\<lambda>l. 2 \<le> length l) (structural_lines name af cf lines))"

text \<open>
  A structural line is a group header when \<^verbatim>\<open>IsVdevGroup\<close> accepts the part of its
  first token before the first \<^verbatim>\<open>-\<close>, and a device line otherwise.
\<close>

definition is_group_line :: "(string \<Rightarrow> bool) \<Rightarrow> string list \<Rightarrow> bool" where
  "is_group_line IsVdevGroup l = IsVdevGroup (Split (l ! 0) CHR ''-'' ! 0)"

text \<open>
  The grouping of structural lines, in the words of the specification: a group header
  opens a group that gets the device lines up to the next group header, in their order;
  the device lines before the first group header, if there are any, are collected in
  one synthetic group.
\<close>

function headed_groups ::
  "(string \<Rightarrow> bool) \<Rightarrow> (string \<Rightarrow> string) \<Rightarrow> string list list \<Rightarrow> VdevGroup list" where
  "headed_groups G R [] = []"
| "headed_groups G R (l # ls) =
     \<lparr>Group = Vdev_of R l,
       Devices = map (Vdev_of R) (takeWhile (\<lambda>x. \<not> is_group_line G x) ls)\<rparr>
     # headed_groups G R (dropWhile (\<lambda>x. \<not> is_group_line G x) ls)"
  by pat_completeness auto
termination
  by (relation "measure (\<lambda>(G, R, ls). length ls)") (auto simp: length_dropWhile_le less_Suc_eq_le)

definition groups_of ::
  "(string \<Rightarrow> bool) \<Rightarrow> (string \<Rightarrow> string) \<Rightarrow> string list list \<Rightarrow> VdevGroup list" where
  "groups_of G R ls =
     (let bare = takeWhile (\<lambda>x. \<not> is_group_line G x) ls in
      (if bare = [] then [] else [fileordisk\<lparr>Devices := map (Vdev_of R) bare\<rparr>])
      @ headed_groups G R (dropWhile (\<lambda>x. \<not> is_group_line G x) ls))"

text \<open>The groups of a record, read through its references in the store \<open>h\<close>.\<close>

definition groups_in :: "VdevGroup list \<Rightarrow> nat ExportedZpool \<Rightarrow> VdevGroup list" where
  "groups_in h e = map (\<lambda>a. h ! a) (Vdevs e)"

text \<open>
  A plain line is neither blank nor does it start with a marker, a header key, the
  name of the pool or \<^verbatim>\<open>config:\<close>: it reaches the \<^verbatim>\<open>default\<close> branch.
\<close>

definition is_plain :: "string \<Rightarrow> string list \<Rightarrow> bool" where
  "is_plain name l =
     (l \<noteq> [] \<and> l ! 0 \<noteq> ''pool:'' \<and> l ! 0 \<noteq> ''id:'' \<and> l ! 0 \<noteq> ''state:'' \<and>
      l ! 0 \<noteq> ''status:'' \<and> l ! 0 \<noteq> ''action:'' \<and> l ! 0 \<noteq> name \<and> l ! 0 \<noteq> ''config:'')"

text \<open>The effect of a device line: the synthetic group is opened first when no group is open.\<close>

definition add_device :: "Vdev \<Rightarrow> nat scan \<Rightarrow> nat scan" where
  "add_device d s =
     (case curVdevGroup s of
        None \<Rightarrow> append_device (length (heap s)) d (open_group fileordisk s)
      | Some a \<Rightarrow> append_device a d s)"

text \<open>
  The store that the grouping of the structural lines \<open>ls\<close> leads to, from the store
  \<open>h\<close> and the current group \<open>c\<close>: the device lines before the first group header
  go to the current group, or to a synthetic group when there is none.
\<close>

definition heap_after ::
  "(string \<Rightarrow> bool) \<Rightarrow> (string \<Rightarrow> string) \<Rightarrow> VdevGroup list \<Rightarrow> nat option \<Rightarrow>
     string list list \<Rightarrow> VdevGroup list" where
  "heap_after G R h c ls =
     (case c of
        None \<Rightarrow> h @ groups_of G R ls
      | Some a \<Rightarrow>
          h[a := (h ! a)\<lparr>Devices := Devices (h ! a)
                   @ map (Vdev_of R) (takeWhile (\<lambda>x. \<not> is_group_line G x) ls)\<rparr>]
          @ headed_groups G R (dropWhile (\<lambda>x. \<not> is_group_line G x) ls))"

text \<open>
  A line with the header key \<open>k\<close>, the record field that the key stands for, and the
  value that the scanner takes from the line: the second token for \<^verbatim>\<open>id:\<close>, the
  tokens after the key joined by single spaces for the other keys.
\<close>

definition is_key_line :: "string \<Rightarrow> string list \<Rightarrow> bool" where
  "is_key_line k l = (l \<noteq> [] \<and> l ! 0 = k)"

definition header_field :: "string \<Rightarrow> 'g ExportedZpool \<Rightarrow> string" where
  "header_field k e =
     (if k = ''id:'' then Id e else if k = ''state:'' then State e
      else if k = ''status:'' then Status e else Action e)"

definition header_value :: "string \<Rightarrow> string list \<Rightarrow> string" where
  "header_value k l = (if k = ''id:'' then l ! 1 else Join (drop 1 l) '' '')"

text \<open>
  The content of a record: its fields, with the groups read through the references.
  Two records with the same content may hold different addresses.
\<close>

definition record_content :: "VdevGroup list \<Rightarrow> nat ExportedZpool \<Rightarrow> VdevGroup ExportedZpool" where
  "record_content h e =
     \<lparr>Name = Name e, Id = Id e, State = State e, Status = Status e, Action = Action e,
      Vdevs = groups_in h e\<rparr>"

text \<open>
  The record of one block taken alone: the content of the record that the scanner
  fills from the zero record with the name of the pool, in an empty store, from the
  lines of the block and nothing else.
\<close>

definition block_record ::
  "(string \<Rightarrow> bool) \<Rightarrow> (string \<Rightarrow> string) \<Rightarrow> string \<Rightarrow> string list list \<Rightarrow>
     VdevGroup ExportedZpool option" where
  "block_record G R name body =
     (case parseLines G R [] (ExportedZpool_zero\<lparr>Name := name\<rparr>) body of
        Inl err \<Rightarrow> None
      | Inr (h, e, n) \<Rightarrow> Some (record_content h e))"

text \<open>
  A report of back-to-back blocks: each block is a marker line with the name of the
  pool as its second token, and the lines up to the next marker, which are scannable.
\<close>

definition block_ok :: "string list \<times> string list list \<Rightarrow> bool" where
  "block_ok b =
     (is_block_start (fst b) \<and> 2 \<le> length (fst b) \<and>
      list_all (\<lambda>l. \<not> is_block_start l) (snd b) \<and>
      scannable (fst b ! 1) False False (snd b))"

definition report_of :: "(string list \<times> string list list) list \<Rightarrow> string list list" where
  "report_of blocks = concat (map (\<lambda>b. fst b # snd b) blocks)"

text \<open>
  Two states of the scanner agree when they differ in the store, the current group and
  the references of the record only.
\<close>

definition agree :: "nat scan \<Rightarrow> nat scan \<Rightarrow> bool" where
  "agree s t =
     (Name (ez s) = Name (ez t) \<and> Id (ez s) = Id (ez t) \<and> State (ez s) = State (ez t) \<and>
      Status (ez s) = Status (ez t) \<and> Action (ez s) = Action (ez t) \<and>
      actionFound s = actionFound t \<and> configFound s = configFound t \<and> loc s = loc t)"

section \<open>Properties\<close>

subsection \<open>A header key without a value\<close>

text \<open>
  Claim C8. A block line that consists of a recognised header key alone should leave the
  field unset and the scan should go on. For \<^verbatim>\<open>state:\<close>, \<^verbatim>\<open>status:\<close> and
  \<^verbatim>\<open>action:\<close> the value is \<^verbatim>\<open>line[1:]\<close>, which is empty; for \<^verbatim>\<open>id:\<close> the
  scanner reads \<^verbatim>\<open>line[1]\<close>, and a lone \<^verbatim>\<open>id:\<close> token makes it panic, whatever the
  record and the store are.
\<close>

theorem parseLines_lone_id_panics:
  "parseLines IsVdevGroup ResolveDeviceName h e [[''id:'']] = Inl Panic"
  by (simp add: parseLines_def parseLines_switch_def)

text \<open>
  The other three keys take the tokens after the key, and a lone key leaves the record
  as it is.
\<close>

lemma parseLines_lone_key:
  "parseLines IsVdevGroup ResolveDeviceName h e [[''state:'']] = Inr (h, e, 1)"
  "parseLines IsVdevGroup ResolveDeviceName h e [[''status:'']] = Inr (h, e, 1)"
  "parseLines IsVdevGroup ResolveDeviceName h e [[''action:'']] = Inr (h, e, 1)"
  by (simp_all add: parseLines_def parseLines_switch_def scan_init_def setString_def)

subsection \<open>The arguments of \<^verbatim>\<open>Import\<close>\<close>

lemma HasPrefix_iff: "HasPrefix s p \<longleftrightarrow> (\<exists>post. s = p @ post)"
  by (induction s p rule: HasPrefix.induct) auto

lemma Contains_iff: "Contains s sub \<longleftrightarrow> (\<exists>pre post. s = pre @ sub @ post)"
proof (induction s)
  case Nil
  then show ?case by (cases sub) auto
next
  case (Cons c cs)
  show ?case
  proof
    assume "Contains (c # cs) sub"
    then consider "HasPrefix (c # cs) sub" | "Contains cs sub" by auto
    then show "\<exists>pre post. c # cs = pre @ sub @ post"
    proof cases
      case 1
      then obtain post where "c # cs = sub @ post" by (auto simp: HasPrefix_iff)
      then have "c # cs = [] @ sub @ post" by simp
      then show ?thesis by blast
    next
      case 2
      then obtain pre post where "cs = pre @ sub @ post" using Cons.IH by auto
      then have "c # cs = (c # pre) @ sub @ post" by simp
      then show ?thesis by blast
    qed
  next
    assume "\<exists>pre post. c # cs = pre @ sub @ post"
    then obtain pre post where eq: "c # cs = pre @ sub @ post" by auto
    show "Contains (c # cs) sub"
    proof (cases pre)
      case Nil
      with eq have "HasPrefix (c # cs) sub" by (auto simp: HasPrefix_iff)
      then show ?thesis by simp
    next
      case (Cons p ps)
      with eq have "cs = ps @ sub @ post" by simp
      then have "Contains cs sub" using Cons.IH by blast
      then show ?thesis by simp
    qed
  qed
qed

text \<open>
  Claim C5. \<^verbatim>\<open>Import\<close> calls the Command Runner with the three arguments
  \<^verbatim>\<open>import\<close>, the flags and the identifier of the record. The flags are \<^verbatim>\<open>-N\<close>,
  then \<^verbatim>\<open>f\<close> exactly when \<open>tryForce\<close> holds, then \<^verbatim>\<open>D\<close> exactly when the state
  text has \<^verbatim>\<open>DESTROYED\<close> as a substring. A record in the state
  \<^verbatim>\<open>ONLINE (DESTROYED)\<close> imported with \<open>tryForce\<close> gets the flags \<^verbatim>\<open>-NfD\<close>.
\<close>

theorem Import_arguments:
  "Import zpoolOutput e tryForce w =
     (case zpoolOutput
             [''import'',
              ''-N'' @ (if tryForce then ''f'' else '''')
                     @ (if \<exists>pre post. State e = pre @ ''DESTROYED'' @ post then ''D'' else ''''),
              Id e] w of
        (Inl err, w1) \<Rightarrow> (Some err, w1)
      | (Inr out, w1) \<Rightarrow> (None, w1))
   \<and> Import_args (e\<lparr>State := ''ONLINE (DESTROYED)''\<rparr>) True = [''import'', ''-NfD'', Id e]"
proof
  have "Contains (State e) ''DESTROYED'' \<longleftrightarrow> (\<exists>pre post. State e = pre @ ''DESTROYED'' @ post)"
    by (rule Contains_iff)
  then show "Import zpoolOutput e tryForce w =
     (case zpoolOutput
             [''import'',
              ''-N'' @ (if tryForce then ''f'' else '''')
                     @ (if \<exists>pre post. State e = pre @ ''DESTROYED'' @ post then ''D'' else ''''),
              Id e] w of
        (Inl err, w1) \<Rightarrow> (Some err, w1)
      | (Inr out, w1) \<Rightarrow> (None, w1))"
    unfolding Import_def Import_args_def Let_def by (cases tryForce) auto
next
  show "Import_args (e\<lparr>State := ''ONLINE (DESTROYED)''\<rparr>) True = [''import'', ''-NfD'', Id e]"
    by (simp add: Import_args_def Let_def)
qed

text \<open>
  The same at a concrete record, with the replaying runner: the log holds the one
  call made, with its arguments.
\<close>

theorem Import_arguments_witness:
  "Import zpoolOutput_replay
      \<lparr>Name = ''tank'', Id = ''123'', State = ''ONLINE (DESTROYED)'', Status = '''',
        Action = '''', Vdevs = ([] :: nat list)\<rparr> True ([], [Inr []])
     = (None, ([[''import'', ''-NfD'', ''123'']], []))"
proof -
  have "\<exists>pre post. ''ONLINE (DESTROYED)'' = pre @ ''DESTROYED'' @ post"
    using Contains_iff [of "''ONLINE (DESTROYED)''" "''DESTROYED''"] by simp
  then show ?thesis
    using Import_arguments
      [where zpoolOutput = zpoolOutput_replay and tryForce = True and w = "([], [Inr []])"
         and e = "\<lparr>Name = ''tank'', Id = ''123'', State = ''ONLINE (DESTROYED)'', Status = '''',
                    Action = '''', Vdevs = ([] :: nat list)\<rparr>"]
    by (simp add: zpoolOutput_replay_def)
qed

subsection \<open>Errors of the Command Runner in \<^verbatim>\<open>ListExportedZpools\<close>\<close>

text \<open>
  Claim C6. \<^verbatim>\<open>ListExportedZpools\<close> calls the Command Runner with \<^verbatim>\<open>import\<close> and,
  after the first report is parsed, with \<^verbatim>\<open>import -D\<close>, in this order. When a call
  returns an error, the whole function returns that error and no collection of records:
  the records of the first report are not returned when the second call fails. A
  collection is returned only when both calls have returned a report.
\<close>

theorem ListExportedZpools_runner_error:
  "(zpoolOutput [''import''] w = (Inl err, w1) \<longrightarrow>
      ListExportedZpools zpoolOutput G R h w = (Inl (ExecError err), w1))
   \<and> (zpoolOutput [''import''] w = (Inr out, w1) \<and>
        ListExportedZpools_loop G R out 0 h [] = Inr (h1, pools) \<and>
        zpoolOutput [''import'', ''-D''] w1 = (Inl err, w2) \<longrightarrow>
      ListExportedZpools zpoolOutput G R h w = (Inl (ExecError err), w2))
   \<and> (zpoolOutput [''import''] w = (Inr out, w1) \<and>
        ListExportedZpools_loop G R out 0 h [] = Inr (h1, pools) \<and>
        zpoolOutput [''import'', ''-D''] w1 = (Inr out2, w2) \<longrightarrow>
      ListExportedZpools zpoolOutput G R h w =
        (ListExportedZpools_loop G R out2 0 h1 pools, w2))
   \<and> (ListExportedZpools zpoolOutput G R h w = (Inr r, w') \<longrightarrow>
      (\<exists>out1 w1 out2. zpoolOutput [''import''] w = (Inr out1, w1) \<and>
         zpoolOutput [''import'', ''-D''] w1 = (Inr out2, w')))"
proof -
  have "ListExportedZpools zpoolOutput G R h w = (Inr r, w') \<Longrightarrow>
      \<exists>out1 w1 out2. zpoolOutput [''import''] w = (Inr out1, w1) \<and>
         zpoolOutput [''import'', ''-D''] w1 = (Inr out2, w')"
    unfolding ListExportedZpools_def
    by (auto simp del: ListExportedZpools_loop.simps split: prod.splits sum.splits)
  then show ?thesis
    by (simp add: ListExportedZpools_def del: ListExportedZpools_loop.simps)
qed

theorem ListExportedZpools_runner_error_witness:
  "ListExportedZpools zpoolOutput_replay IsVdevGroup_kinds ResolveDeviceName_raw []
       ([], [Inl ''zpool: not found''])
     = (Inl (ExecError ''zpool: not found''), ([[''import'']], []))
   \<and> ListExportedZpools zpoolOutput_replay IsVdevGroup_kinds ResolveDeviceName_raw []
       ([], [Inr [[''pool:'', ''tank''], [''id:'', ''7'']], Inl ''exit status 1''])
     = (Inl (ExecError ''exit status 1''), ([[''import''], [''import'', ''-D'']], []))"
proof
  show "ListExportedZpools zpoolOutput_replay IsVdevGroup_kinds ResolveDeviceName_raw []
       ([], [Inl ''zpool: not found''])
     = (Inl (ExecError ''zpool: not found''), ([[''import'']], []))"
    using ListExportedZpools_runner_error
      [where zpoolOutput = zpoolOutput_replay and w = "([], [Inl ''zpool: not found''])"
         and err = "''zpool: not found''" and ?w1.0 = "([[''import'']], [])"
         and G = IsVdevGroup_kinds and R = ResolveDeviceName_raw and h = "[]"]
    by (simp add: zpoolOutput_replay_def)
next
  have loop: "ListExportedZpools_loop IsVdevGroup_kinds ResolveDeviceName_raw
            [[''pool:'', ''tank''], [''id:'', ''7'']] 0 [] []
         = Inr ([], [\<lparr>Name = ''tank'', Id = ''7'', State = '''', Status = '''', Action = '''', Vdevs = []\<rparr>])"
    by (simp add: parseLines_def scan_init_def parseLines_switch_def ExportedZpool_zero_def
        setString_def)
  show "ListExportedZpools zpoolOutput_replay IsVdevGroup_kinds ResolveDeviceName_raw []
       ([], [Inr [[''pool:'', ''tank''], [''id:'', ''7'']], Inl ''exit status 1''])
     = (Inl (ExecError ''exit status 1''), ([[''import''], [''import'', ''-D'']], []))"
    using loop ListExportedZpools_runner_error
      [where zpoolOutput = zpoolOutput_replay
         and w = "([], [Inr [[''pool:'', ''tank''], [''id:'', ''7'']], Inl ''exit status 1''])"
         and ?w1.0 = "([[''import'']], [Inl ''exit status 1''])"
         and G = IsVdevGroup_kinds and R = ResolveDeviceName_raw and h = "[]"
         and out = "[[''pool:'', ''tank''], [''id:'', ''7'']]" and ?h1.0 = "[]"
         and err = "''exit status 1''" and ?w2.0 = "([[''import''], [''import'', ''-D'']], [])"]
    by (simp add: zpoolOutput_replay_def)
qed

subsection \<open>Reports without a block-start marker\<close>

text \<open>
  On a report whose lines are not blank and do not start with \<^verbatim>\<open>pool:\<close> the loop of
  the driver adds no record, and two such reports give the empty collection.
\<close>

lemma ListExportedZpools_loop_no_marker:
  "\<forall>l \<in> set (drop i out). l \<noteq> [] \<and> l ! 0 \<noteq> ''pool:'' \<Longrightarrow>
   ListExportedZpools_loop G R out i h pools = Inr (h, pools)"
proof (induction "length out - i" arbitrary: i)
  case 0
  then show ?case by simp
next
  case (Suc n)
  then have i: "i < length out" by simp
  then have "out ! i \<in> set (drop i out)"
    by (metis Cons_nth_drop_Suc list.set_intros(1))
  with Suc.prems have li: "out ! i \<noteq> [] \<and> out ! i ! 0 \<noteq> ''pool:''" by blast
  have "set (drop (Suc i) out) \<subseteq> set (drop i out)"
    by (metis drop_Suc set_drop_subset tl_drop drop_drop set_drop_subset_set_drop Suc_n_not_le_n nat_le_linear)
  with Suc.prems have "\<forall>l \<in> set (drop (Suc i) out). l \<noteq> [] \<and> l ! 0 \<noteq> ''pool:''" by blast
  moreover from Suc.hyps(2) have "n = length out - Suc i" by simp
  ultimately have "ListExportedZpools_loop G R out (Suc i) h pools = Inr (h, pools)"
    using Suc.hyps(1) by blast
  with i li show ?case by simp
qed

lemma ListExportedZpools_no_marker:
  assumes "zpoolOutput [''import''] w = (Inr out1, w1)"
    and "zpoolOutput [''import'', ''-D''] w1 = (Inr out2, w2)"
    and "list_all (\<lambda>l. l \<noteq> [] \<and> l ! 0 \<noteq> ''pool:'') out1"
    and "list_all (\<lambda>l. l \<noteq> [] \<and> l ! 0 \<noteq> ''pool:'') out2"
  shows "ListExportedZpools zpoolOutput G R h w = (Inr (h, []), w2)"
proof -
  from assms(3) have "ListExportedZpools_loop G R out1 0 h [] = Inr (h, [])"
    by (intro ListExportedZpools_loop_no_marker) (simp add: list_all_iff)
  moreover from assms(4) have "ListExportedZpools_loop G R out2 0 h [] = Inr (h, [])"
    by (intro ListExportedZpools_loop_no_marker) (simp add: list_all_iff)
  ultimately show ?thesis using assms(1,2)
    by (simp add: ListExportedZpools_def del: ListExportedZpools_loop.simps)
qed

text \<open>
  Claim C4. A report without a block-start marker should give an empty collection and no
  error. A blank line of the report is an empty token sequence and has no first token;
  the driver reads \<^verbatim>\<open>out[i][0]\<close> without the check of the length that the block
  scanner makes, and panics: here on a first report that is one blank line.
\<close>

theorem ListExportedZpools_blank_line_panics:
  "ListExportedZpools zpoolOutput_replay IsVdevGroup ResolveDeviceName h ([], [Inr [[]], Inr []])
     = (Inl Panic, ([[''import'']], [Inr []]))"
  by (simp add: ListExportedZpools_def zpoolOutput_replay_def)

subsection \<open>One step of the block scanner\<close>

lemma parseLines_switch_loc:
  "parseLines_switch G R s line = Inr s1 \<Longrightarrow> loc s1 = loc s"
  by (auto simp: parseLines_switch_def open_group_def append_device_def Let_def
      split: if_splits option.splits)

lemma block_of_simps [simp]:
  "block_of [] = []"
  "block_of (l # ls) = (if is_block_start l then [] else l # block_of ls)"
  by (simp_all add: block_of_def)

lemma parseLines_loop_count:
  "parseLines_loop G R s lines = Inr (s', n) \<Longrightarrow> n = loc s + first_block_start lines"
proof (induction lines arbitrary: s)
  case Nil
  then show ?case by (auto simp: first_block_start_def)
next
  case (Cons l ls)
  show ?case
  proof (cases "l = []")
    case True
    with Cons.prems have "parseLines_loop G R (s\<lparr>loc := loc s + 1\<rparr>) ls = Inr (s', n)"
      by simp
    from Cons.IH [OF this] True show ?thesis
      by (simp add: first_block_start_def is_block_start_def)
  next
    case False
    show ?thesis
    proof (cases "l ! 0 = ''pool:''")
      case True
      with False Cons.prems show ?thesis
        by (simp add: first_block_start_def is_block_start_def)
    next
      case nomark: False
      with False Cons.prems obtain s1 where
        sw: "parseLines_switch G R (s\<lparr>loc := loc s + 1\<rparr>) l = Inr s1" and
        lp: "parseLines_loop G R s1 ls = Inr (s', n)"
        by (auto simp: Let_def split: sum.splits)
      from parseLines_switch_loc [OF sw] have "loc s1 = loc s + 1" by simp
      with Cons.IH [OF lp] False nomark show ?thesis
        by (simp add: first_block_start_def is_block_start_def)
    qed
  qed
qed

lemma switch_not_plain:
  assumes "l \<noteq> []" "l ! 0 \<noteq> ''pool:''" "\<not> is_plain (Name (ez s)) l"
    "parseLines_switch G R s l = Inr s1"
  shows "Name (ez s1) = Name (ez s) \<and> heap s1 = heap s \<and> curVdevGroup s1 = curVdevGroup s \<and>
    Vdevs (ez s1) = Vdevs (ez s) \<and>
    structural_lines (Name (ez s)) (actionFound s) (configFound s) (l # ls)
        = structural_lines (Name (ez s)) (actionFound s1) (configFound s1) ls"
  using assms unfolding is_plain_def parseLines_switch_def
  by (auto split: if_splits)

lemma switch_continuation:
  assumes "is_plain (Name (ez s)) l" "actionFound s \<and> \<not> configFound s"
    "parseLines_switch G R s l = Inr s1"
  shows "Name (ez s1) = Name (ez s) \<and> heap s1 = heap s \<and> curVdevGroup s1 = curVdevGroup s \<and>
    Vdevs (ez s1) = Vdevs (ez s) \<and>
    structural_lines (Name (ez s)) (actionFound s) (configFound s) (l # ls)
        = structural_lines (Name (ez s)) (actionFound s1) (configFound s1) ls"
  using assms unfolding is_plain_def parseLines_switch_def
  by (auto split: if_splits)

lemma switch_structural:
  assumes "is_plain (Name (ez s)) l" "\<not> (actionFound s \<and> \<not> configFound s)"
    "parseLines_switch G R s l = Inr s1"
  shows "2 \<le> length l \<and>
    s1 = (if is_group_line G l then open_group \<lparr>Group = Vdev_of R l, Devices = []\<rparr> s
          else add_device (Vdev_of R l) s)"
  using assms unfolding is_plain_def parseLines_switch_def is_group_line_def add_device_def
  by (auto simp: Let_def open_group_def split: if_splits option.splits)

lemma structural_lines_plain:
  assumes "is_plain name l" "\<not> (af \<and> \<not> cf)"
  shows "structural_lines name af cf (l # ls) = l # structural_lines name af cf ls"
  using assms unfolding is_plain_def by auto

lemma open_group_simps [simp]:
  "heap (open_group g s) = heap s @ [g]"
  "curVdevGroup (open_group g s) = Some (length (heap s))"
  "Vdevs (ez (open_group g s)) = Vdevs (ez s) @ [length (heap s)]"
  "Name (ez (open_group g s)) = Name (ez s)"
  "actionFound (open_group g s) = actionFound s"
  "configFound (open_group g s) = configFound s"
  "loc (open_group g s) = loc s"
  by (simp_all add: open_group_def)

lemma add_device_simps [simp]:
  "Name (ez (add_device d s)) = Name (ez s)"
  "actionFound (add_device d s) = actionFound s"
  "configFound (add_device d s) = configFound s"
  "loc (add_device d s) = loc s"
  by (simp_all add: add_device_def append_device_def split: option.splits)

lemma add_device_None:
  "curVdevGroup s = None \<Longrightarrow>
   heap (add_device d s) = heap s @ [fileordisk\<lparr>Devices := [d]\<rparr>] \<and>
   curVdevGroup (add_device d s) = Some (length (heap s)) \<and>
   Vdevs (ez (add_device d s)) = Vdevs (ez s) @ [length (heap s)]"
  by (simp add: add_device_def append_device_def fileordisk_def)

lemma add_device_Some:
  "curVdevGroup s = Some a \<Longrightarrow>
   heap (add_device d s) = (heap s)[a := (heap s ! a)\<lparr>Devices := Devices (heap s ! a) @ [d]\<rparr>] \<and>
   curVdevGroup (add_device d s) = Some a \<and>
   Vdevs (ez (add_device d s)) = Vdevs (ez s)"
  by (simp add: add_device_def append_device_def)

lemma parseLines_switch_returns:
  assumes "l \<noteq> []" "l ! 0 \<noteq> ''pool:''"
    "scannable (Name (ez s)) (actionFound s) (configFound s) (l # ls)"
  shows "\<exists>s1. parseLines_switch G R s l = Inr s1"
  using assms
  by (auto simp: parseLines_switch_def Let_def scannable_def is_block_start_def open_group_def
      split: if_splits option.splits)


lemma scannable_blank:
  "scannable name af cf ([] # ls) = scannable name af cf ls"
  by (simp add: scannable_def is_block_start_def)

lemma scannable_step:
  assumes "l \<noteq> []" "l ! 0 \<noteq> ''pool:''" "parseLines_switch G R s l = Inr s1"
    "scannable (Name (ez s)) (actionFound s) (configFound s) (l # ls)"
  shows "scannable (Name (ez s1)) (actionFound s1) (configFound s1) ls"
proof -
  from assms(1,2,4) have ids: "list_all (\<lambda>l. 2 \<le> length l)
      (filter (\<lambda>l. l \<noteq> [] \<and> l ! 0 = ''id:'') (block_of ls))"
    by (auto simp: scannable_def is_block_start_def split: if_splits)
  from assms(4) have sl: "list_all (\<lambda>l. 2 \<le> length l)
      (structural_lines (Name (ez s)) (actionFound s) (configFound s) (l # ls))"
    by (simp add: scannable_def)
  show ?thesis
  proof (cases "is_plain (Name (ez s)) l \<and> \<not> (actionFound s \<and> \<not> configFound s)")
    case False
    then have "Name (ez s1) = Name (ez s) \<and>
        structural_lines (Name (ez s)) (actionFound s) (configFound s) (l # ls)
          = structural_lines (Name (ez s)) (actionFound s1) (configFound s1) ls"
      using switch_not_plain [OF assms(1,2) _ assms(3), of ls]
        switch_continuation [OF _ _ assms(3), of ls]
      by (cases "is_plain (Name (ez s)) l") auto
    with sl ids show ?thesis by (simp add: scannable_def del: structural_lines.simps)
  next
    case True
    then have pl: "is_plain (Name (ez s)) l"
      and fl: "\<not> (actionFound s \<and> \<not> configFound s)" by simp_all
    from switch_structural [OF pl fl assms(3)] have
      "Name (ez s1) = Name (ez s) \<and> actionFound s1 = actionFound s \<and>
       configFound s1 = configFound s"
      by (cases "is_group_line G l") auto
    moreover from sl structural_lines_plain [OF pl fl, of ls]
    have "list_all (\<lambda>l. 2 \<le> length l)
        (structural_lines (Name (ez s)) (actionFound s) (configFound s) ls)" by simp
    ultimately show ?thesis using ids by (simp add: scannable_def)
  qed
qed

lemma parseLines_loop_returns:
  "scannable (Name (ez s)) (actionFound s) (configFound s) lines \<Longrightarrow>
   \<exists>s'. parseLines_loop G R s lines = Inr (s', loc s + first_block_start lines)"
proof (induction lines arbitrary: s)
  case Nil
  then show ?case by (simp add: first_block_start_def)
next
  case (Cons l ls)
  let ?s0 = "s\<lparr>loc := loc s + 1\<rparr>"
  consider (blank) "l = []" | (mark) "l \<noteq> []" "l ! 0 = ''pool:''"
    | (other) "l \<noteq> []" "l ! 0 \<noteq> ''pool:''" by blast
  then show ?case
  proof cases
    case blank
    with Cons.prems have "scannable (Name (ez ?s0)) (actionFound ?s0) (configFound ?s0) ls"
      by (simp add: scannable_blank)
    from Cons.IH [OF this] blank show ?thesis
      by (simp add: first_block_start_def is_block_start_def)
  next
    case mark
    then show ?thesis by (simp add: first_block_start_def is_block_start_def)
  next
    case other
    from Cons.prems
    have sc0: "scannable (Name (ez ?s0)) (actionFound ?s0) (configFound ?s0) (l # ls)" by simp
    from parseLines_switch_returns [OF other sc0] obtain s1 where
      sw: "parseLines_switch G R ?s0 l = Inr s1" by blast
    from parseLines_switch_loc [OF sw] have l1: "loc s1 = loc s + 1" by simp
    from Cons.IH [OF scannable_step [OF other sw sc0]] obtain s' where
      "parseLines_loop G R s1 ls = Inr (s', loc s1 + first_block_start ls)" by blast
    with sw other have "parseLines_loop G R s (l # ls) = Inr (s', loc s1 + first_block_start ls)"
      by simp
    moreover from other have "first_block_start (l # ls) = Suc (first_block_start ls)"
      by (simp add: first_block_start_def is_block_start_def)
    ultimately show ?thesis using l1 by simp
  qed
qed

subsection \<open>The count returned by the block scanner\<close>

text \<open>
  Whenever the scanner returns, the count it returns is the 0-based index of the first
  line whose first token is \<^verbatim>\<open>pool:\<close>, or the number of lines when there is
  none, blank lines counted. It does return when every \<^verbatim>\<open>id:\<close> line and every
  structural line before that marker has a second token.
\<close>

theorem parseLines_count:
  "(parseLines G R h e lines = Inr (h', e', n) \<longrightarrow> n = first_block_start lines)
   \<and> (scannable (Name e) False False lines \<longrightarrow>
        (\<exists>h1 e1. parseLines G R h e lines = Inr (h1, e1, first_block_start lines)))"
proof (intro conjI impI)
  assume "parseLines G R h e lines = Inr (h', e', n)"
  then obtain s' where "parseLines_loop G R (scan_init h e) lines = Inr (s', n)"
    by (auto simp: parseLines_def split: sum.splits)
  from parseLines_loop_count [OF this] show "n = first_block_start lines"
    by (simp add: scan_init_def)
next
  assume "scannable (Name e) False False lines"
  then have "scannable (Name (ez (scan_init h e))) (actionFound (scan_init h e))
      (configFound (scan_init h e)) lines"
    by (simp add: scan_init_def)
  from parseLines_loop_returns [OF this, of G R]
  show "\<exists>h1 e1. parseLines G R h e lines = Inr (h1, e1, first_block_start lines)"
    by (auto simp: parseLines_def scan_init_def)
qed

theorem parseLines_count_witness:
  "\<exists>h1 e1. parseLines IsVdevGroup_kinds ResolveDeviceName_raw [] (ExportedZpool_zero\<lparr>Name := ''tank''\<rparr>)
       [[''id:'', ''123''], [''config:''], [], [''sda'', ''ONLINE''], [''pool:'', ''next''], [''id:'']]
     = Inr (h1, e1, 4)"
proof -
  have "scannable (Name (ExportedZpool_zero\<lparr>Name := ''tank''\<rparr> :: nat ExportedZpool)) False False
     [[''id:'', ''123''], [''config:''], [], [''sda'', ''ONLINE''], [''pool:'', ''next''], [''id:'']]"
    by (simp add: scannable_def is_block_start_def)
  moreover have "first_block_start
     [[''id:'', ''123''], [''config:''], [], [''sda'', ''ONLINE''], [''pool:'', ''next''], [''id:'']] = 4"
    by (simp add: first_block_start_def is_block_start_def)
  ultimately show ?thesis
    using parseLines_count [where lines =
      "[[''id:'', ''123''], [''config:''], [], [''sda'', ''ONLINE''], [''pool:'', ''next''], [''id:'']]"
      and G = IsVdevGroup_kinds and R = ResolveDeviceName_raw and h = "[]"
      and e = "ExportedZpool_zero\<lparr>Name := ''tank''\<rparr>"]
    by simp
qed

text \<open>
  Claim C1. For every line sequence the scanner should return the index of the first
  line that starts with \<^verbatim>\<open>pool:\<close>, or the number of lines. The device branch reads
  \<^verbatim>\<open>line[1]\<close> without a check of the length, as the \<^verbatim>\<open>id:\<close> case and the group
  branch do. A block with the one-token section line \<^verbatim>\<open>cache\<close> has six lines and
  no marker: the scanner panics on the section line and returns no count, where the
  earlier variant of \<^verbatim>\<open>zpool.go\<close> returns 6.
\<close>

theorem parseLines_one_token_line_panics:
  "first_block_start
       [[''id:'', ''1''], [''config:''], [''tank'', ''ONLINE''], [''sda'', ''ONLINE''],
        [''cache''], [''sdd'', ''ONLINE'']] = 6
   \<and> parseLines IsVdevGroup_kinds ResolveDeviceName_raw [] (ExportedZpool_zero\<lparr>Name := ''tank''\<rparr>)
       [[''id:'', ''1''], [''config:''], [''tank'', ''ONLINE''], [''sda'', ''ONLINE''],
        [''cache''], [''sdd'', ''ONLINE'']] = Inl Panic
   \<and> parseLines_old IsVdevGroup_kinds [] (ExportedZpool_zero\<lparr>Name := ''tank''\<rparr>)
       [[''id:'', ''1''], [''config:''], [''tank'', ''ONLINE''], [''sda'', ''ONLINE''],
        [''cache''], [''sdd'', ''ONLINE'']]
     = Inr ([], \<lparr>Name = ''tank'', Id = ''1'', State = '''', Status = '''', Action = '''',
                  Vdevs = []\<rparr>, 6)"
  by (simp add: first_block_start_def is_block_start_def parseLines_def scan_init_def
      parseLines_switch_def parseLines_old_def parseLines_old_switch_def
      ExportedZpool_zero_def setString_def IsVdevGroup_kinds_def ResolveDeviceName_raw_def
      open_group_def append_device_def Vdev_of_def fileordisk_def)

subsection \<open>The store after a scan\<close>

lemma heap_after_Nil:
  "(\<And>a. c = Some a \<Longrightarrow> a < length h) \<Longrightarrow> heap_after G R h c [] = h"
  by (cases c) (simp_all add: heap_after_def groups_of_def)

lemma heap_after_group:
  assumes "is_group_line G l" "\<And>a. c = Some a \<Longrightarrow> a < length h"
  shows "heap_after G R h c (l # ls)
    = heap_after G R (h @ [\<lparr>Group = Vdev_of R l, Devices = []\<rparr>]) (Some (length h)) ls"
  using assms by (cases c) (simp_all add: heap_after_def groups_of_def)

lemma heap_after_device:
  assumes "\<not> is_group_line G l" "\<And>a. curVdevGroup s = Some a \<Longrightarrow> a < length (heap s)"
  shows "heap_after G R (heap s) (curVdevGroup s) (l # ls)
    = heap_after G R (heap (add_device (Vdev_of R l) s))
        (curVdevGroup (add_device (Vdev_of R l) s)) ls"
proof (cases "curVdevGroup s")
  case None
  with assms(1) show ?thesis
    by (simp add: add_device_None heap_after_def groups_of_def fileordisk_def)
next
  case (Some a)
  with assms have "a < length (heap s)" by simp
  with Some assms(1) show ?thesis
    by (simp add: add_device_Some heap_after_def)
qed

lemma length_heap_after: "length h \<le> length (heap_after G R h c ls)"
  by (cases c) (simp_all add: heap_after_def)


lemma parseLines_loop_store:
  assumes "parseLines_loop G R s lines = Inr (s', n)"
    and "\<And>a. curVdevGroup s = Some a \<Longrightarrow> a < length (heap s)"
  shows "heap s' = heap_after G R (heap s) (curVdevGroup s)
                     (structural_lines (Name (ez s)) (actionFound s) (configFound s) lines)
       \<and> Vdevs (ez s') = Vdevs (ez s) @ [length (heap s) ..< length (heap s')]
       \<and> Name (ez s') = Name (ez s)"
  using assms
proof (induction lines arbitrary: s)
  case Nil
  then have "s' = s" by simp
  with heap_after_Nil [of "curVdevGroup s" "heap s" G R] Nil.prems(2) show ?case by simp
next
  case (Cons l ls)
  let ?s0 = "s\<lparr>loc := loc s + 1\<rparr>"
  have cur0: "\<And>a. curVdevGroup ?s0 = Some a \<Longrightarrow> a < length (heap ?s0)"
    using Cons.prems(2) by simp
  consider (blank) "l = []" | (mark) "l \<noteq> []" "l ! 0 = ''pool:''"
    | (other) "l \<noteq> []" "l ! 0 \<noteq> ''pool:''" by blast
  then show ?case
  proof cases
    case blank
    with Cons.prems(1) have "parseLines_loop G R ?s0 ls = Inr (s', n)" by simp
    from Cons.IH [OF this cur0] blank show ?thesis by simp
  next
    case mark
    with Cons.prems(1) have "s' = ?s0" by auto
    with mark heap_after_Nil [of "curVdevGroup s" "heap s" G R] Cons.prems(2)
    show ?thesis by simp
  next
    case other
    with Cons.prems(1) obtain s1 where
      sw: "parseLines_switch G R ?s0 l = Inr s1" and
      lp: "parseLines_loop G R s1 ls = Inr (s', n)"
      by (auto simp: Let_def split: sum.splits)
    show ?thesis
    proof (cases "is_plain (Name (ez s)) l \<and> \<not> (actionFound s \<and> \<not> configFound s)")
      case False
      then have same: "Name (ez s1) = Name (ez s) \<and> heap s1 = heap s \<and>
          curVdevGroup s1 = curVdevGroup s \<and> Vdevs (ez s1) = Vdevs (ez s) \<and>
          structural_lines (Name (ez s)) (actionFound s) (configFound s) (l # ls)
            = structural_lines (Name (ez s)) (actionFound s1) (configFound s1) ls"
        using switch_not_plain [OF other _ sw, of ls] switch_continuation [OF _ _ sw, of ls]
        by (cases "is_plain (Name (ez s)) l") auto
      then have cur1: "\<And>a. curVdevGroup s1 = Some a \<Longrightarrow> a < length (heap s1)"
        using Cons.prems(2) by simp
      from Cons.IH [OF lp cur1] same show ?thesis by simp
    next
      case True
      then have pl: "is_plain (Name (ez ?s0)) l"
        and fl: "\<not> (actionFound ?s0 \<and> \<not> configFound ?s0)" by simp_all
      from switch_structural [OF pl fl sw] have
        s1: "s1 = (if is_group_line G l then open_group \<lparr>Group = Vdev_of R l, Devices = []\<rparr> ?s0
                   else add_device (Vdev_of R l) ?s0)" by blast
      from True have sl: "structural_lines (Name (ez s)) (actionFound s) (configFound s) (l # ls)
          = l # structural_lines (Name (ez s)) (actionFound s) (configFound s) ls"
        by (intro structural_lines_plain) auto
      show ?thesis
      proof (cases "is_group_line G l")
        case grp: True
        with s1 have s1': "s1 = open_group \<lparr>Group = Vdev_of R l, Devices = []\<rparr> ?s0" by simp
        have cur1: "\<And>a. curVdevGroup s1 = Some a \<Longrightarrow> a < length (heap s1)"
          by (simp add: s1')
        from Cons.IH [OF lp cur1]
        have h: "heap s' = heap_after G R (heap s @ [\<lparr>Group = Vdev_of R l, Devices = []\<rparr>])
                   (Some (length (heap s)))
                   (structural_lines (Name (ez s)) (actionFound s) (configFound s) ls)"
          and v: "Vdevs (ez s') = (Vdevs (ez s) @ [length (heap s)])
                   @ [Suc (length (heap s)) ..< length (heap s')]"
          and nm: "Name (ez s') = Name (ez s)"
          by (simp_all add: s1')
        from h have "Suc (length (heap s)) \<le> length (heap s')"
          using length_heap_after [of "heap s @ [\<lparr>Group = Vdev_of R l, Devices = []\<rparr>]"]
          by simp
        then have "[length (heap s) ..< length (heap s')]
            = length (heap s) # [Suc (length (heap s)) ..< length (heap s')]"
          by (simp add: upt_conv_Cons)
        with h v nm sl heap_after_group [OF grp Cons.prems(2)] show ?thesis by simp
      next
        case dev: False
        with s1 have s1': "s1 = add_device (Vdev_of R l) ?s0" by simp
        have cur1: "\<And>a. curVdevGroup s1 = Some a \<Longrightarrow> a < length (heap s1)"
          using Cons.prems(2)
          by (cases "curVdevGroup s") (auto simp: s1' add_device_None add_device_Some)
        have had: "heap_after G R (heap s) (curVdevGroup s)
             (l # structural_lines (Name (ez s)) (actionFound s) (configFound s) ls)
           = heap_after G R (heap s1) (curVdevGroup s1)
               (structural_lines (Name (ez s)) (actionFound s) (configFound s) ls)"
          using heap_after_device [OF dev cur0, where R = R
              and ls = "structural_lines (Name (ez s)) (actionFound s) (configFound s) ls"]
          unfolding s1'
          by (cases "curVdevGroup s") (simp_all add: add_device_None add_device_Some)
        from Cons.IH [OF lp cur1]
        have h: "heap s' = heap_after G R (heap s1) (curVdevGroup s1)
                   (structural_lines (Name (ez s)) (actionFound s) (configFound s) ls)"
          and v: "Vdevs (ez s') = Vdevs (ez s1) @ [length (heap s1) ..< length (heap s')]"
          and nm: "Name (ez s') = Name (ez s)"
          by (simp_all add: s1')
        show ?thesis
        proof (cases "curVdevGroup s")
          case None
          then have a: "heap s1 = heap s @ [fileordisk\<lparr>Devices := [Vdev_of R l]\<rparr>]"
            "Vdevs (ez s1) = Vdevs (ez s) @ [length (heap s)]"
            by (simp_all add: s1' add_device_None)
          from h a have "Suc (length (heap s)) \<le> length (heap s')"
            using length_heap_after [of "heap s1"] by simp
          then have "[length (heap s) ..< length (heap s')]
              = length (heap s) # [Suc (length (heap s)) ..< length (heap s')]"
            by (simp add: upt_conv_Cons)
          with h v nm sl had a show ?thesis by simp
        next
          case (Some a)
          then have a: "length (heap s1) = length (heap s)" "Vdevs (ez s1) = Vdevs (ez s)"
            by (simp_all add: s1' add_device_Some)
          with h v nm sl had show ?thesis by simp
        qed
      qed
    qed
  qed
qed

subsection \<open>The grouping of the devices\<close>

lemma map_nth_append_upt:
  "map (\<lambda>a. (h @ gs) ! a) [length h ..< length h + length gs] = gs"
proof -
  have "[length h ..< length h + length gs] = map (\<lambda>i. i + length h) [0 ..< length gs]"
    by (simp add: map_add_upt add.commute)
  then have "map (\<lambda>a. (h @ gs) ! a) [length h ..< length h + length gs]
      = map (\<lambda>i. gs ! i) [0 ..< length gs]"
    by (simp add: o_def nth_append)
  then show ?thesis by (simp add: map_nth)
qed

lemma map_nth_append_old:
  "list_all (\<lambda>a. a < length h) vs \<Longrightarrow> map (\<lambda>a. (h @ gs) ! a) vs = map (\<lambda>a. h ! a) vs"
  by (induction vs) (simp_all add: nth_append)

text \<open>The meaning of \<open>groups_of\<close>, in the two cases of the claim.\<close>

lemma takeWhile_all: "list_all P xs \<Longrightarrow> takeWhile P xs = xs"
  by (induction xs) simp_all

lemma dropWhile_all: "list_all P xs \<Longrightarrow> dropWhile P xs = []"
  by (induction xs) simp_all

lemma groups_of_no_header:
  assumes "list_all (\<lambda>x. \<not> is_group_line G x) ls" "ls \<noteq> []"
  shows "groups_of G R ls = [fileordisk\<lparr>Devices := map (Vdev_of R) ls\<rparr>]"
  using assms(2) unfolding groups_of_def Let_def
  by (simp add: takeWhile_all [OF assms(1)] dropWhile_all [OF assms(1)])

lemma groups_of_header:
  assumes "is_group_line G g"
  shows "groups_of G R (g # ls) = headed_groups G R (g # ls)"
  using assms by (simp add: groups_of_def)

lemma headed_groups_next:
  assumes "list_all (\<lambda>x. \<not> is_group_line G x) ds" "is_group_line G g'"
  shows "headed_groups G R (g # ds @ g' # rest)
    = \<lparr>Group = Vdev_of R g, Devices = map (Vdev_of R) ds\<rparr> # headed_groups G R (g' # rest)"
proof -
  from assms have tw: "takeWhile (\<lambda>x. \<not> is_group_line G x) (ds @ g' # rest) = ds"
    and dw: "dropWhile (\<lambda>x. \<not> is_group_line G x) (ds @ g' # rest) = g' # rest"
    by (simp_all add: list_all_iff takeWhile_append2 dropWhile_append2)
  have "headed_groups G R (g # ds @ g' # rest)
    = \<lparr>Group = Vdev_of R g,
        Devices = map (Vdev_of R) (takeWhile (\<lambda>x. \<not> is_group_line G x) (ds @ g' # rest))\<rparr>
      # headed_groups G R (dropWhile (\<lambda>x. \<not> is_group_line G x) (ds @ g' # rest))"
    by (rule headed_groups.simps(2))
  then show ?thesis by (simp only: tw dw)
qed

lemma headed_groups_last:
  assumes "list_all (\<lambda>x. \<not> is_group_line G x) ds"
  shows "headed_groups G R (g # ds) = [\<lparr>Group = Vdev_of R g, Devices = map (Vdev_of R) ds\<rparr>]"
  by (simp add: takeWhile_all [OF assms] dropWhile_all [OF assms])

text \<open>
  Claim C3, amended. On a scannable line sequence the scanner returns, and the groups
  of the record after the scan are those it had before, followed by the grouping of
  the structural lines of the block: each group header (a structural line of which
  \<^verbatim>\<open>IsVdevGroup\<close> accepts the first token up to its first \<^verbatim>\<open>-\<close>) opens a group that
  gets the device lines up to the next group header, in input order, and the device
  lines before the first group header go to one synthetic group.
\<close>

theorem parseLines_grouping:
  assumes "scannable (Name e) False False lines"
    and "list_all (\<lambda>a. a < length h) (Vdevs e)"
  shows "\<exists>h' e' n. parseLines G R h e lines = Inr (h', e', n) \<and>
    groups_in h' e' = groups_in h e @ groups_of G R (structural_lines (Name e) False False lines)"
proof -
  let ?s = "scan_init h e"
  let ?gs = "groups_of G R (structural_lines (Name e) False False lines)"
  from assms(1) have "scannable (Name (ez ?s)) (actionFound ?s) (configFound ?s) lines"
    by (simp add: scan_init_def)
  from parseLines_loop_returns [OF this, of G R] obtain s' n where
    lp: "parseLines_loop G R ?s lines = Inr (s', n)" by blast
  have "\<And>a. curVdevGroup ?s = Some a \<Longrightarrow> a < length (heap ?s)"
    by (simp add: scan_init_def)
  from parseLines_loop_store [OF lp this]
  have h': "heap s' = h @ ?gs"
    and v': "Vdevs (ez s') = Vdevs e @ [length h ..< length (heap s')]"
    by (simp_all add: scan_init_def heap_after_def)
  from h' v' have "groups_in (heap s') (ez s')
      = map (\<lambda>a. (h @ ?gs) ! a) (Vdevs e) @ map (\<lambda>a. (h @ ?gs) ! a) [length h ..< length h + length ?gs]"
    by (simp add: groups_in_def)
  with assms(2) have "groups_in (heap s') (ez s') = groups_in h e @ ?gs"
    by (simp add: map_nth_append_upt map_nth_append_old groups_in_def)
  with lp show ?thesis by (simp add: parseLines_def)
qed

text \<open>
  A report block as the tool prints it, with a mirror and a raidz group; and a block
  with bare devices only.
\<close>

theorem parseLines_grouping_witness:
  "(\<exists>h' e' n. parseLines IsVdevGroup_kinds ResolveDeviceName_raw []
        (ExportedZpool_zero\<lparr>Name := ''tank''\<rparr>)
        [[''id:'', ''123''], [''state:'', ''ONLINE''], [''action:'', ''The'', ''pool'', ''can''],
         [''be'', ''imported.''], [''config:''], [], [''tank'', ''ONLINE''],
         [''mirror-0'', ''ONLINE''], [''sda'', ''ONLINE''], [''sdb'', ''ONLINE''],
         [''raidz1-1'', ''DEGRADED''], [''sdc'', ''FAULTED'']] = Inr (h', e', n) \<and>
      groups_in h' e' =
        [\<lparr>Group = \<lparr>Vdev_Name = ''mirror-0'', Vdev_Health = ''ONLINE''\<rparr>,
           Devices = [\<lparr>Vdev_Name = ''sda'', Vdev_Health = ''ONLINE''\<rparr>,
                      \<lparr>Vdev_Name = ''sdb'', Vdev_Health = ''ONLINE''\<rparr>]\<rparr>,
         \<lparr>Group = \<lparr>Vdev_Name = ''raidz1-1'', Vdev_Health = ''DEGRADED''\<rparr>,
           Devices = [\<lparr>Vdev_Name = ''sdc'', Vdev_Health = ''FAULTED''\<rparr>]\<rparr>])
   \<and> (\<exists>h' e' n. parseLines IsVdevGroup_kinds ResolveDeviceName_raw []
        (ExportedZpool_zero\<lparr>Name := ''tank''\<rparr>)
        [[''config:''], [''sda'', ''ONLINE''], [''sdb'', ''ONLINE'']] = Inr (h', e', n) \<and>
      groups_in h' e' =
        [\<lparr>Group = \<lparr>Vdev_Name = ''fileordisk'', Vdev_Health = ''''\<rparr>,
           Devices = [\<lparr>Vdev_Name = ''sda'', Vdev_Health = ''ONLINE''\<rparr>,
                      \<lparr>Vdev_Name = ''sdb'', Vdev_Health = ''ONLINE''\<rparr>]\<rparr>])"
proof
  let ?e = "ExportedZpool_zero\<lparr>Name := ''tank''\<rparr> :: nat ExportedZpool"
  let ?ls = "[[''id:'', ''123''], [''state:'', ''ONLINE''], [''action:'', ''The'', ''pool'', ''can''],
         [''be'', ''imported.''], [''config:''], [], [''tank'', ''ONLINE''],
         [''mirror-0'', ''ONLINE''], [''sda'', ''ONLINE''], [''sdb'', ''ONLINE''],
         [''raidz1-1'', ''DEGRADED''], [''sdc'', ''FAULTED'']]"
  have sl: "structural_lines (Name ?e) False False ?ls
      = [[''mirror-0'', ''ONLINE''], [''sda'', ''ONLINE''], [''sdb'', ''ONLINE''],
         [''raidz1-1'', ''DEGRADED''], [''sdc'', ''FAULTED'']]"
    by (simp add: ExportedZpool_zero_def)
  have sc: "scannable (Name ?e) False False ?ls"
    unfolding scannable_def sl by (simp add: is_block_start_def)
  have gs: "groups_of IsVdevGroup_kinds ResolveDeviceName_raw
        [[''mirror-0'', ''ONLINE''], [''sda'', ''ONLINE''], [''sdb'', ''ONLINE''],
         [''raidz1-1'', ''DEGRADED''], [''sdc'', ''FAULTED'']]
      = [\<lparr>Group = \<lparr>Vdev_Name = ''mirror-0'', Vdev_Health = ''ONLINE''\<rparr>,
           Devices = [\<lparr>Vdev_Name = ''sda'', Vdev_Health = ''ONLINE''\<rparr>,
                      \<lparr>Vdev_Name = ''sdb'', Vdev_Health = ''ONLINE''\<rparr>]\<rparr>,
         \<lparr>Group = \<lparr>Vdev_Name = ''raidz1-1'', Vdev_Health = ''DEGRADED''\<rparr>,
           Devices = [\<lparr>Vdev_Name = ''sdc'', Vdev_Health = ''FAULTED''\<rparr>]\<rparr>]"
    by (simp add: groups_of_def is_group_line_def IsVdevGroup_kinds_def Vdev_of_def
        ResolveDeviceName_raw_def)
  have vs: "list_all (\<lambda>a. a < length ([] :: VdevGroup list)) (Vdevs ?e)"
    by (simp add: ExportedZpool_zero_def)
  from parseLines_grouping [OF sc vs, of IsVdevGroup_kinds ResolveDeviceName_raw]
  show "\<exists>h' e' n. parseLines IsVdevGroup_kinds ResolveDeviceName_raw [] ?e ?ls = Inr (h', e', n) \<and>
      groups_in h' e' =
        [\<lparr>Group = \<lparr>Vdev_Name = ''mirror-0'', Vdev_Health = ''ONLINE''\<rparr>,
           Devices = [\<lparr>Vdev_Name = ''sda'', Vdev_Health = ''ONLINE''\<rparr>,
                      \<lparr>Vdev_Name = ''sdb'', Vdev_Health = ''ONLINE''\<rparr>]\<rparr>,
         \<lparr>Group = \<lparr>Vdev_Name = ''raidz1-1'', Vdev_Health = ''DEGRADED''\<rparr>,
           Devices = [\<lparr>Vdev_Name = ''sdc'', Vdev_Health = ''FAULTED''\<rparr>]\<rparr>]"
    unfolding sl gs by (simp add: groups_in_def ExportedZpool_zero_def)
next
  let ?e = "ExportedZpool_zero\<lparr>Name := ''tank''\<rparr> :: nat ExportedZpool"
  let ?ls = "[[''config:''], [''sda'', ''ONLINE''], [''sdb'', ''ONLINE'']]"
  have sl: "structural_lines (Name ?e) False False ?ls
      = [[''sda'', ''ONLINE''], [''sdb'', ''ONLINE'']]"
    by (simp add: ExportedZpool_zero_def)
  have sc: "scannable (Name ?e) False False ?ls"
    unfolding scannable_def sl by (simp add: is_block_start_def)
  have gs: "groups_of IsVdevGroup_kinds ResolveDeviceName_raw
        [[''sda'', ''ONLINE''], [''sdb'', ''ONLINE'']]
      = [\<lparr>Group = \<lparr>Vdev_Name = ''fileordisk'', Vdev_Health = ''''\<rparr>,
           Devices = [\<lparr>Vdev_Name = ''sda'', Vdev_Health = ''ONLINE''\<rparr>,
                      \<lparr>Vdev_Name = ''sdb'', Vdev_Health = ''ONLINE''\<rparr>]\<rparr>]"
    by (simp add: groups_of_def is_group_line_def IsVdevGroup_kinds_def Vdev_of_def
        ResolveDeviceName_raw_def fileordisk_def)
  have vs: "list_all (\<lambda>a. a < length ([] :: VdevGroup list)) (Vdevs ?e)"
    by (simp add: ExportedZpool_zero_def)
  from parseLines_grouping [OF sc vs, of IsVdevGroup_kinds ResolveDeviceName_raw]
  show "\<exists>h' e' n. parseLines IsVdevGroup_kinds ResolveDeviceName_raw [] ?e ?ls = Inr (h', e', n) \<and>
      groups_in h' e' =
        [\<lparr>Group = \<lparr>Vdev_Name = ''fileordisk'', Vdev_Health = ''''\<rparr>,
           Devices = [\<lparr>Vdev_Name = ''sda'', Vdev_Health = ''ONLINE''\<rparr>,
                      \<lparr>Vdev_Name = ''sdb'', Vdev_Health = ''ONLINE''\<rparr>]\<rparr>]"
    unfolding sl gs by (simp add: groups_in_def ExportedZpool_zero_def)
qed

text \<open>
  The claim as stated counts every device line after a group header. The scanner
  takes the first plain line after an \<^verbatim>\<open>action:\<close> line as the continuation of the
  action text as long as no \<^verbatim>\<open>config:\<close> line was seen, also when a group is open:
  the device line below ends in the action text, and the group stays empty.
\<close>

theorem parseLines_grouping_counterexample:
  "parseLines IsVdevGroup_kinds ResolveDeviceName_raw [] (ExportedZpool_zero\<lparr>Name := ''tank''\<rparr>)
      [[''mirror-0'', ''ONLINE''], [''action:'', ''none''], [''sda'', ''ONLINE'']]
    = Inr ([\<lparr>Group = \<lparr>Vdev_Name = ''mirror-0'', Vdev_Health = ''ONLINE''\<rparr>, Devices = []\<rparr>],
           \<lparr>Name = ''tank'', Id = '''', State = '''', Status = '''',
             Action = ''none sda ONLINE'', Vdevs = [0]\<rparr>, 3)"
  by (simp add: parseLines_def scan_init_def parseLines_switch_def ExportedZpool_zero_def
      setString_def IsVdevGroup_kinds_def ResolveDeviceName_raw_def open_group_def Vdev_of_def)

subsection \<open>The header fields\<close>

lemma block_of_marker_free:
  "list_all (\<lambda>l. \<not> is_block_start l) xs \<Longrightarrow> block_of (xs @ ys) = xs @ block_of ys"
  by (induction xs) simp_all

lemma parseLines_loop_append:
  "list_all (\<lambda>l. \<not> is_block_start l) xs \<Longrightarrow>
   parseLines_loop G R s (xs @ ys)
     = (case parseLines_loop G R s xs of
          Inl e \<Rightarrow> Inl e
        | Inr (s1, n) \<Rightarrow> parseLines_loop G R s1 ys)"
proof (induction xs arbitrary: s)
  case Nil
  then show ?case by simp
next
  case (Cons l ls)
  then have l: "l = [] \<or> l ! 0 \<noteq> ''pool:''" and ls: "list_all (\<lambda>l. \<not> is_block_start l) ls"
    by (auto simp: is_block_start_def)
  show ?case
  proof (cases "l = []")
    case True
    with Cons.IH [OF ls] show ?thesis by simp
  next
    case False
    with l have nm: "l ! 0 \<noteq> ''pool:''" by simp
    show ?thesis
    proof (cases "parseLines_switch G R (s\<lparr>loc := loc s + 1\<rparr>) l")
      case (Inl e)
      with False nm show ?thesis by simp
    next
      case (Inr s1)
      with False nm Cons.IH [OF ls, of s1] show ?thesis by simp
    qed
  qed
qed

lemma switch_Id_unchanged:
  "parseLines_switch G R s l = Inr s1 \<Longrightarrow> l ! 0 \<noteq> ''id:'' \<Longrightarrow> Id (ez s1) = Id (ez s)"
  unfolding parseLines_switch_def
  by (auto simp: Let_def open_group_def append_device_def split: if_splits option.splits)

lemma switch_State_unchanged:
  "parseLines_switch G R s l = Inr s1 \<Longrightarrow> l ! 0 \<noteq> ''state:'' \<Longrightarrow> State (ez s1) = State (ez s)"
  unfolding parseLines_switch_def
  by (auto simp: Let_def open_group_def append_device_def split: if_splits option.splits)

lemma switch_Status_unchanged:
  "parseLines_switch G R s l = Inr s1 \<Longrightarrow> l ! 0 \<noteq> ''status:'' \<Longrightarrow>
   Status (ez s1) = Status (ez s)"
  unfolding parseLines_switch_def
  by (auto simp: Let_def open_group_def append_device_def split: if_splits option.splits)

lemma switch_Action_unchanged:
  "parseLines_switch G R s l = Inr s1 \<Longrightarrow> l ! 0 \<noteq> ''action:'' \<Longrightarrow> \<not> actionFound s \<Longrightarrow>
   Action (ez s1) = Action (ez s) \<and> \<not> actionFound s1"
  unfolding parseLines_switch_def
  by (auto simp: Let_def open_group_def append_device_def split: if_splits option.splits)

lemma switch_field_unchanged:
  assumes "parseLines_switch G R s l = Inr s1" "l \<noteq> []" "\<not> is_key_line k l"
    "k = ''id:'' \<or> k = ''state:'' \<or> k = ''status:'' \<or> k = ''action:''"
    "k = ''action:'' \<longrightarrow> \<not> actionFound s"
  shows "header_field k (ez s1) = header_field k (ez s) \<and>
    (k = ''action:'' \<longrightarrow> \<not> actionFound s1)"
proof -
  from assms(2,3) have nk: "l ! 0 \<noteq> k" by (simp add: is_key_line_def)
  from assms(4) consider "k = ''id:''" | "k = ''state:''" | "k = ''status:''" | "k = ''action:''"
    by blast
  then show ?thesis
  proof cases
    case 1
    with nk switch_Id_unchanged [OF assms(1)] show ?thesis by (simp add: header_field_def)
  next
    case 2
    with nk switch_State_unchanged [OF assms(1)] show ?thesis by (simp add: header_field_def)
  next
    case 3
    with nk switch_Status_unchanged [OF assms(1)] show ?thesis by (simp add: header_field_def)
  next
    case 4
    with nk assms(5) switch_Action_unchanged [OF assms(1)] show ?thesis
      by (simp add: header_field_def)
  qed
qed

lemma switch_key_line:
  assumes "is_key_line k l"
    "k = ''id:'' \<or> k = ''state:'' \<or> k = ''status:'' \<or> k = ''action:''"
    "parseLines_switch G R s l = Inr s1"
  shows "header_field k (ez s1) = setString (header_field k (ez s)) (header_value k l)"
  using assms unfolding parseLines_switch_def is_key_line_def header_field_def header_value_def
  by (auto split: if_splits)

lemma switch_Id_kept:
  "parseLines_switch G R s l = Inr s1 \<Longrightarrow> Id (ez s) \<noteq> [] \<Longrightarrow> Id (ez s1) = Id (ez s)"
  unfolding parseLines_switch_def
  by (auto simp: Let_def open_group_def append_device_def setString_def
      split: if_splits option.splits)

lemma switch_State_kept:
  "parseLines_switch G R s l = Inr s1 \<Longrightarrow> State (ez s) \<noteq> [] \<Longrightarrow> State (ez s1) = State (ez s)"
  unfolding parseLines_switch_def
  by (auto simp: Let_def open_group_def append_device_def setString_def
      split: if_splits option.splits)

lemma switch_Status_kept:
  "parseLines_switch G R s l = Inr s1 \<Longrightarrow> Status (ez s) \<noteq> [] \<Longrightarrow>
   Status (ez s1) = Status (ez s)"
  unfolding parseLines_switch_def
  by (auto simp: Let_def open_group_def append_device_def setString_def
      split: if_splits option.splits)

lemma switch_Action_kept:
  "parseLines_switch G R s l = Inr s1 \<Longrightarrow> Action (ez s) \<noteq> [] \<Longrightarrow>
   \<exists>suf. Action (ez s1) = Action (ez s) @ suf"
  unfolding parseLines_switch_def
  by (auto simp: Let_def open_group_def append_device_def setString_def
      split: if_splits option.splits)

lemma switch_field_kept:
  assumes "parseLines_switch G R s l = Inr s1" "header_field k (ez s) \<noteq> []"
  shows "\<exists>suf. header_field k (ez s1) = header_field k (ez s) @ suf \<and>
    (k = ''id:'' \<or> k = ''state:'' \<or> k = ''status:'' \<longrightarrow> suf = [])"
proof -
  consider "k = ''id:''" | "k \<noteq> ''id:''" "k = ''state:''"
    | "k \<noteq> ''id:''" "k \<noteq> ''state:''" "k = ''status:''"
    | "k \<noteq> ''id:''" "k \<noteq> ''state:''" "k \<noteq> ''status:''" by blast
  then show ?thesis
  proof cases
    case 1
    with assms(2) switch_Id_kept [OF assms(1)] show ?thesis by (simp add: header_field_def)
  next
    case 2
    with assms(2) switch_State_kept [OF assms(1)] show ?thesis by (simp add: header_field_def)
  next
    case 3
    with assms(2) switch_Status_kept [OF assms(1)] show ?thesis by (simp add: header_field_def)
  next
    case 4
    with assms(2) switch_Action_kept [OF assms(1)] show ?thesis by (simp add: header_field_def)
  qed
qed

lemma parseLines_loop_field_unchanged:
  assumes "parseLines_loop G R s ls = Inr (s', n)"
    "list_all (\<lambda>l. \<not> is_key_line k l) (block_of ls)"
    "k = ''id:'' \<or> k = ''state:'' \<or> k = ''status:'' \<or> k = ''action:''"
    "k = ''action:'' \<longrightarrow> \<not> actionFound s"
  shows "header_field k (ez s') = header_field k (ez s) \<and>
    (k = ''action:'' \<longrightarrow> \<not> actionFound s')"
  using assms(1,2,4)
proof (induction ls arbitrary: s)
  case Nil
  then show ?case by auto
next
  case (Cons l ls)
  let ?s0 = "s\<lparr>loc := loc s + 1\<rparr>"
  consider (blank) "l = []" | (mark) "l \<noteq> []" "l ! 0 = ''pool:''"
    | (other) "l \<noteq> []" "l ! 0 \<noteq> ''pool:''" by blast
  then show ?case
  proof cases
    case blank
    with Cons.prems have "parseLines_loop G R ?s0 ls = Inr (s', n)"
      "list_all (\<lambda>l. \<not> is_key_line k l) (block_of ls)" "k = ''action:'' \<longrightarrow> \<not> actionFound ?s0"
      by (simp_all add: is_block_start_def)
    from Cons.IH [OF this] show ?thesis by simp
  next
    case mark
    with Cons.prems(1) have "s' = ?s0" by auto
    with Cons.prems(3) show ?thesis by simp
  next
    case other
    with Cons.prems(1) obtain s1 where
      sw: "parseLines_switch G R ?s0 l = Inr s1" and
      lp: "parseLines_loop G R s1 ls = Inr (s', n)"
      by (auto simp: Let_def split: sum.splits)
    from other Cons.prems(2) have nk: "\<not> is_key_line k l"
      and rest: "list_all (\<lambda>l. \<not> is_key_line k l) (block_of ls)"
      by (simp_all add: is_block_start_def)
    from Cons.prems(3) have "k = ''action:'' \<longrightarrow> \<not> actionFound ?s0" by simp
    from switch_field_unchanged [OF sw other(1) nk assms(3) this]
    have s1: "header_field k (ez s1) = header_field k (ez s)"
      "k = ''action:'' \<longrightarrow> \<not> actionFound s1" by simp_all
    from Cons.IH [OF lp rest s1(2)] s1(1) show ?thesis by simp
  qed
qed

lemma parseLines_loop_field_kept:
  assumes "parseLines_loop G R s ls = Inr (s', n)" "header_field k (ez s) \<noteq> []"
  shows "\<exists>suf. header_field k (ez s') = header_field k (ez s) @ suf \<and>
    (k = ''id:'' \<or> k = ''state:'' \<or> k = ''status:'' \<longrightarrow> suf = [])"
  using assms
proof (induction ls arbitrary: s)
  case Nil
  then show ?case by auto
next
  case (Cons l ls)
  let ?s0 = "s\<lparr>loc := loc s + 1\<rparr>"
  consider (blank) "l = []" | (mark) "l \<noteq> []" "l ! 0 = ''pool:''"
    | (other) "l \<noteq> []" "l ! 0 \<noteq> ''pool:''" by blast
  then show ?case
  proof cases
    case blank
    with Cons.prems have "parseLines_loop G R ?s0 ls = Inr (s', n)"
      "header_field k (ez ?s0) \<noteq> []" by simp_all
    from Cons.IH [OF this] show ?thesis by simp
  next
    case mark
    with Cons.prems(1) have "s' = ?s0" by auto
    then show ?thesis by simp
  next
    case other
    with Cons.prems(1) obtain s1 where
      sw: "parseLines_switch G R ?s0 l = Inr s1" and
      lp: "parseLines_loop G R s1 ls = Inr (s', n)"
      by (auto simp: Let_def split: sum.splits)
    from Cons.prems(2) have "header_field k (ez ?s0) \<noteq> []" by simp
    from switch_field_kept [OF sw this] obtain suf1 where
      s1: "header_field k (ez s1) = header_field k (ez s) @ suf1"
      "k = ''id:'' \<or> k = ''state:'' \<or> k = ''status:'' \<longrightarrow> suf1 = []" by auto
    with Cons.prems(2) have "header_field k (ez s1) \<noteq> []" by simp
    from Cons.IH [OF lp this] obtain suf2 where
      s2: "header_field k (ez s') = header_field k (ez s1) @ suf2"
      "k = ''id:'' \<or> k = ''state:'' \<or> k = ''status:'' \<longrightarrow> suf2 = []" by auto
    from s1 s2 have "header_field k (ez s') = header_field k (ez s) @ (suf1 @ suf2)"
      "k = ''id:'' \<or> k = ''state:'' \<or> k = ''status:'' \<longrightarrow> suf1 @ suf2 = []" by simp_all
    then show ?thesis by blast
  qed
qed

lemma list_all_conj: "list_all (\<lambda>x. P x \<and> Q x) xs \<longleftrightarrow> list_all P xs \<and> list_all Q xs"
  by (induction xs) auto

lemma block_of_all: "list_all (\<lambda>l. \<not> is_block_start l) xs \<Longrightarrow> block_of xs = xs"
  by (induction xs) simp_all

text \<open>
  Claim C7, amended. Let a scannable block have a first line with the header key \<open>k\<close>,
  and let this line have a non-empty value, the field being unset before the scan (as
  in the record that the driver creates). For \<^verbatim>\<open>id:\<close>, \<^verbatim>\<open>state:\<close> and
  \<^verbatim>\<open>status:\<close> the field after the scan is that value, whatever lines follow: a later
  line with the same key is ignored. For \<^verbatim>\<open>action:\<close> the field after the scan
  starts with that value; continuation text may follow it.
\<close>

theorem first_write_wins:
  assumes k: "k = ''id:'' \<or> k = ''state:'' \<or> k = ''status:'' \<or> k = ''action:''"
    and xs: "list_all (\<lambda>l. \<not> is_block_start l \<and> \<not> is_key_line k l) xs"
    and l1: "is_key_line k l1" "header_value k l1 \<noteq> ''''"
    and e: "header_field k e = ''''"
    and sc: "scannable (Name e) False False (xs @ l1 # rest)"
  shows "\<exists>h' e' n suf. parseLines G R h e (xs @ l1 # rest) = Inr (h', e', n) \<and>
    header_field k e' = header_value k l1 @ suf \<and>
    (k = ''id:'' \<or> k = ''state:'' \<or> k = ''status:'' \<longrightarrow> suf = [])"
proof -
  let ?s = "scan_init h e"
  from xs have mf: "list_all (\<lambda>l. \<not> is_block_start l) xs"
    and nk: "list_all (\<lambda>l. \<not> is_key_line k l) xs"
    by (simp_all add: list_all_conj)
  from sc have "scannable (Name (ez ?s)) (actionFound ?s) (configFound ?s) (xs @ l1 # rest)"
    by (simp add: scan_init_def)
  from parseLines_loop_returns [OF this, of G R] obtain s' n where
    lp: "parseLines_loop G R ?s (xs @ l1 # rest) = Inr (s', n)" by blast
  with parseLines_loop_append [OF mf, of G R ?s "l1 # rest"] obtain s1 n1 where
    lx: "parseLines_loop G R ?s xs = Inr (s1, n1)" and
    lr: "parseLines_loop G R s1 (l1 # rest) = Inr (s', n)"
    by (auto split: sum.splits)
  from nk mf have "list_all (\<lambda>l. \<not> is_key_line k l) (block_of xs)" by (simp add: block_of_all)
  from parseLines_loop_field_unchanged [OF lx this k] e
  have f1: "header_field k (ez s1) = ''''" by (simp add: scan_init_def)
  from l1(1) k have l1': "l1 \<noteq> []" "l1 ! 0 \<noteq> ''pool:''" by (auto simp: is_key_line_def)
  with lr obtain s2 where
    sw: "parseLines_switch G R (s1\<lparr>loc := loc s1 + 1\<rparr>) l1 = Inr s2" and
    l2: "parseLines_loop G R s2 rest = Inr (s', n)"
    by (auto simp: Let_def split: sum.splits)
  from switch_key_line [OF l1(1) k sw] f1
  have f2: "header_field k (ez s2) = header_value k l1"
    by (simp add: setString_def header_field_def)
  with l1(2) have "header_field k (ez s2) \<noteq> []" by simp
  from parseLines_loop_field_kept [OF l2 this] f2 obtain suf where
    "header_field k (ez s') = header_value k l1 @ suf"
    "k = ''id:'' \<or> k = ''state:'' \<or> k = ''status:'' \<longrightarrow> suf = []" by auto
  with lp show ?thesis by (auto simp: parseLines_def)
qed

theorem first_write_wins_witness:
  "\<exists>h' e' n. parseLines IsVdevGroup_kinds ResolveDeviceName_raw []
        (ExportedZpool_zero\<lparr>Name := ''tank''\<rparr>)
        [[''id:'', ''123''], [''state:'', ''ONLINE''], [''state:'', ''FAULTED'', ''now'']]
      = Inr (h', e', n) \<and> State e' = ''ONLINE''"
proof -
  let ?e = "ExportedZpool_zero\<lparr>Name := ''tank''\<rparr> :: nat ExportedZpool"
  have "scannable (Name ?e) False False
     ([[''id:'', ''123'']] @ [''state:'', ''ONLINE''] # [[''state:'', ''FAULTED'', ''now'']])"
    by (simp add: scannable_def is_block_start_def ExportedZpool_zero_def)
  moreover have "list_all (\<lambda>l. \<not> is_block_start l \<and> \<not> is_key_line ''state:'' l) [[''id:'', ''123'']]"
    by (simp add: is_block_start_def is_key_line_def)
  moreover have "is_key_line ''state:'' [''state:'', ''ONLINE'']"
    "header_value ''state:'' [''state:'', ''ONLINE''] \<noteq> ''''"
    "header_field ''state:'' ?e = ''''"
    by (simp_all add: is_key_line_def header_value_def header_field_def ExportedZpool_zero_def)
  ultimately show ?thesis
    using first_write_wins [where k = "''state:''" and xs = "[[''id:'', ''123'']]"
        and ?l1.0 = "[''state:'', ''ONLINE'']" and rest = "[[''state:'', ''FAULTED'', ''now'']]"
        and e = ?e and G = IsVdevGroup_kinds and R = ResolveDeviceName_raw and h = "[]"]
    by (simp add: header_field_def header_value_def)
qed

text \<open>
  The claim as stated fails in two ways. A first line with the key alone leaves the
  field unset, and the second line with the key is then the one that writes. And the
  action field does not stay at the value of the first \<^verbatim>\<open>action:\<close> line: the
  second \<^verbatim>\<open>action:\<close> line arms the continuation again.
\<close>

theorem first_write_wins_counterexample:
  "header_value ''state:'' [''state:''] = ''''
   \<and> parseLines IsVdevGroup_kinds ResolveDeviceName_raw [] (ExportedZpool_zero\<lparr>Name := ''tank''\<rparr>)
        [[''state:''], [''state:'', ''ONLINE'']]
      = Inr ([], \<lparr>Name = ''tank'', Id = '''', State = ''ONLINE'', Status = '''', Action = '''',
                   Vdevs = []\<rparr>, 2)
   \<and> parseLines IsVdevGroup_kinds ResolveDeviceName_raw [] (ExportedZpool_zero\<lparr>Name := ''tank''\<rparr>)
        [[''action:'', ''a''], [''action:'', ''b''], [''c'']]
      = Inr ([], \<lparr>Name = ''tank'', Id = '''', State = '''', Status = '''', Action = ''a c'',
                   Vdevs = []\<rparr>, 3)"
  by (simp add: header_value_def parseLines_def scan_init_def parseLines_switch_def
      ExportedZpool_zero_def setString_def)

subsection \<open>The continuation of the action text\<close>

lemma switch_configFound_unchanged:
  "parseLines_switch G R s l = Inr s1 \<Longrightarrow> l ! 0 \<noteq> ''config:'' \<Longrightarrow>
   configFound s1 = configFound s"
  unfolding parseLines_switch_def
  by (auto simp: Let_def open_group_def append_device_def split: if_splits option.splits)

lemma switch_Name:
  "parseLines_switch G R s l = Inr s1 \<Longrightarrow> Name (ez s1) = Name (ez s)"
  unfolding parseLines_switch_def
  by (auto simp: Let_def open_group_def append_device_def split: if_splits option.splits)

lemma parseLines_loop_flags:
  assumes "parseLines_loop G R s ls = Inr (s', n)"
    "list_all (\<lambda>l. \<not> is_key_line ''config:'' l) (block_of ls)"
  shows "configFound s' = configFound s \<and> Name (ez s') = Name (ez s)"
  using assms
proof (induction ls arbitrary: s)
  case Nil
  then show ?case by auto
next
  case (Cons l ls)
  let ?s0 = "s\<lparr>loc := loc s + 1\<rparr>"
  consider (blank) "l = []" | (mark) "l \<noteq> []" "l ! 0 = ''pool:''"
    | (other) "l \<noteq> []" "l ! 0 \<noteq> ''pool:''" by blast
  then show ?case
  proof cases
    case blank
    with Cons.prems have "parseLines_loop G R ?s0 ls = Inr (s', n)"
      "list_all (\<lambda>l. \<not> is_key_line ''config:'' l) (block_of ls)"
      by (simp_all add: is_block_start_def)
    from Cons.IH [OF this] show ?thesis by simp
  next
    case mark
    with Cons.prems(1) have "s' = ?s0" by auto
    then show ?thesis by simp
  next
    case other
    with Cons.prems(1) obtain s1 where
      sw: "parseLines_switch G R ?s0 l = Inr s1" and
      lp: "parseLines_loop G R s1 ls = Inr (s', n)"
      by (auto simp: Let_def split: sum.splits)
    from other Cons.prems(2) have nk: "l ! 0 \<noteq> ''config:''"
      and rest: "list_all (\<lambda>l. \<not> is_key_line ''config:'' l) (block_of ls)"
      by (simp_all add: is_block_start_def is_key_line_def)
    from switch_configFound_unchanged [OF sw nk] switch_Name [OF sw] Cons.IH [OF lp rest]
    show ?thesis by simp
  qed
qed

lemma switch_action_line:
  assumes "is_key_line ''action:'' a" "parseLines_switch G R s a = Inr s1"
  shows "Action (ez s1) = setString (Action (ez s)) (Join (drop 1 a) '' '') \<and>
    actionFound s1 \<and> configFound s1 = configFound s \<and> Name (ez s1) = Name (ez s)"
  using assms unfolding parseLines_switch_def is_key_line_def
  by (auto split: if_splits)

lemma switch_continuation_line:
  assumes "is_plain (Name (ez s)) f" "actionFound s" "\<not> configFound s"
    "parseLines_switch G R s f = Inr s1"
  shows "Action (ez s1) = Action (ez s) @ '' '' @ Join f '' '' \<and> \<not> actionFound s1"
  using assms unfolding parseLines_switch_def is_plain_def
  by (auto split: if_splits)

text \<open>
  Claim C2, amended. In a scannable block, let an \<^verbatim>\<open>action:\<close> line be directly
  followed by a plain line, with no \<^verbatim>\<open>action:\<close> and no \<^verbatim>\<open>config:\<close> line before
  them and no \<^verbatim>\<open>action:\<close> line after them, the action field being unset before the
  scan. Then the action field after the scan is the tokens of the \<^verbatim>\<open>action:\<close> line
  after the key, joined by single spaces, one space, and the tokens of the plain line
  joined by single spaces. No later line is added: the flag is disarmed.
\<close>

theorem action_continuation:
  assumes xs: "list_all (\<lambda>l. \<not> is_block_start l \<and> \<not> is_key_line ''action:'' l
                          \<and> \<not> is_key_line ''config:'' l) xs"
    and a: "is_key_line ''action:'' a"
    and f: "is_plain (Name e) f"
    and rest: "list_all (\<lambda>l. \<not> is_key_line ''action:'' l) (block_of rest)"
    and e: "Action e = ''''"
    and sc: "scannable (Name e) False False (xs @ a # f # rest)"
  shows "\<exists>h' e' n. parseLines G R h e (xs @ a # f # rest) = Inr (h', e', n) \<and>
    Action e' = Join (drop 1 a) '' '' @ '' '' @ Join f '' ''"
proof -
  let ?s = "scan_init h e"
  from xs have mf: "list_all (\<lambda>l. \<not> is_block_start l) xs"
    and na: "list_all (\<lambda>l. \<not> is_key_line ''action:'' l) xs"
    and nc: "list_all (\<lambda>l. \<not> is_key_line ''config:'' l) xs"
    by (simp_all add: list_all_conj)
  from sc have "scannable (Name (ez ?s)) (actionFound ?s) (configFound ?s) (xs @ a # f # rest)"
    by (simp add: scan_init_def)
  from parseLines_loop_returns [OF this, of G R] obtain s' n where
    lp: "parseLines_loop G R ?s (xs @ a # f # rest) = Inr (s', n)" by blast
  with parseLines_loop_append [OF mf, of G R ?s "a # f # rest"] obtain s1 n1 where
    lx: "parseLines_loop G R ?s xs = Inr (s1, n1)" and
    lr: "parseLines_loop G R s1 (a # f # rest) = Inr (s', n)"
    by (auto split: sum.splits)
  from na nc mf have bx: "list_all (\<lambda>l. \<not> is_key_line ''action:'' l) (block_of xs)"
    "list_all (\<lambda>l. \<not> is_key_line ''config:'' l) (block_of xs)"
    by (simp_all add: block_of_all)
  from parseLines_loop_field_unchanged [OF lx bx(1), simplified] e
  have a1: "Action (ez s1) = ''''" "\<not> actionFound s1"
    by (simp_all add: scan_init_def header_field_def)
  from parseLines_loop_flags [OF lx bx(2)]
  have c1: "\<not> configFound s1" "Name (ez s1) = Name e" by (simp_all add: scan_init_def)
  from a have a': "a \<noteq> []" "a ! 0 \<noteq> ''pool:''" by (auto simp: is_key_line_def)
  with lr obtain s2 where
    sw2: "parseLines_switch G R (s1\<lparr>loc := loc s1 + 1\<rparr>) a = Inr s2" and
    l2: "parseLines_loop G R s2 (f # rest) = Inr (s', n)"
    by (auto simp: Let_def split: sum.splits)
  from switch_action_line [OF a sw2] a1 c1
  have s2: "Action (ez s2) = Join (drop 1 a) '' ''" "actionFound s2" "\<not> configFound s2"
    "Name (ez s2) = Name e"
    by (simp_all add: setString_def)
  from f have f': "f \<noteq> []" "f ! 0 \<noteq> ''pool:''" by (auto simp: is_plain_def)
  with l2 obtain s3 where
    sw3: "parseLines_switch G R (s2\<lparr>loc := loc s2 + 1\<rparr>) f = Inr s3" and
    l3: "parseLines_loop G R s3 rest = Inr (s', n)"
    by (auto simp: Let_def split: sum.splits)
  from f s2 have "is_plain (Name (ez (s2\<lparr>loc := loc s2 + 1\<rparr>))) f"
    "actionFound (s2\<lparr>loc := loc s2 + 1\<rparr>)" "\<not> configFound (s2\<lparr>loc := loc s2 + 1\<rparr>)"
    by simp_all
  from switch_continuation_line [OF this sw3] s2
  have s3: "Action (ez s3) = Join (drop 1 a) '' '' @ '' '' @ Join f '' ''" "\<not> actionFound s3"
    by simp_all
  from parseLines_loop_field_unchanged [OF l3 rest, simplified] s3
  have "Action (ez s') = Join (drop 1 a) '' '' @ '' '' @ Join f '' ''"
    by (simp add: header_field_def)
  with lp show ?thesis by (auto simp: parseLines_def)
qed

theorem action_continuation_witness:
  "\<exists>h' e' n. parseLines IsVdevGroup_kinds ResolveDeviceName_raw []
        (ExportedZpool_zero\<lparr>Name := ''tank''\<rparr>)
        [[''id:'', ''123''], [''state:'', ''ONLINE''],
         [''action:'', ''The'', ''pool'', ''can'', ''be'', ''imported'', ''using''],
         [''its'', ''name'', ''or'', ''numeric'', ''identifier.''],
         [''config:''], [], [''tank'', ''ONLINE''], [''sda'', ''ONLINE'']]
      = Inr (h', e', n) \<and>
    Action e' = ''The pool can be imported using its name or numeric identifier.''"
proof -
  let ?e = "ExportedZpool_zero\<lparr>Name := ''tank''\<rparr> :: nat ExportedZpool"
  have nm: "Name ?e = ''tank''" by (simp add: ExportedZpool_zero_def)
  have "scannable (Name ?e) False False
     ([[''id:'', ''123''], [''state:'', ''ONLINE'']]
      @ [''action:'', ''The'', ''pool'', ''can'', ''be'', ''imported'', ''using'']
      # [''its'', ''name'', ''or'', ''numeric'', ''identifier.'']
      # [[''config:''], [], [''tank'', ''ONLINE''], [''sda'', ''ONLINE'']])"
    unfolding nm by (simp add: scannable_def is_block_start_def)
  moreover have "list_all (\<lambda>l. \<not> is_block_start l \<and> \<not> is_key_line ''action:'' l
        \<and> \<not> is_key_line ''config:'' l) [[''id:'', ''123''], [''state:'', ''ONLINE'']]"
    by (simp add: is_block_start_def is_key_line_def)
  moreover have
    "is_key_line ''action:'' [''action:'', ''The'', ''pool'', ''can'', ''be'', ''imported'', ''using'']"
    by (simp add: is_key_line_def)
  moreover have "is_plain (Name ?e) [''its'', ''name'', ''or'', ''numeric'', ''identifier.'']"
    unfolding nm by (simp add: is_plain_def)
  moreover have "list_all (\<lambda>l. \<not> is_key_line ''action:'' l)
      (block_of [[''config:''], [], [''tank'', ''ONLINE''], [''sda'', ''ONLINE'']])"
    by (simp add: is_block_start_def is_key_line_def)
  moreover have "Action ?e = ''''" by (simp add: ExportedZpool_zero_def)
  ultimately show ?thesis
    using action_continuation [where xs = "[[''id:'', ''123''], [''state:'', ''ONLINE'']]"
        and a = "[''action:'', ''The'', ''pool'', ''can'', ''be'', ''imported'', ''using'']"
        and f = "[''its'', ''name'', ''or'', ''numeric'', ''identifier.'']"
        and rest = "[[''config:''], [], [''tank'', ''ONLINE''], [''sda'', ''ONLINE'']]"
        and e = ?e and G = IsVdevGroup_kinds and R = ResolveDeviceName_raw and h = "[]"]
    by simp
qed

text \<open>
  The claim as stated asks only that the free-text line comes before any group or device
  line. The scanner asks that no \<^verbatim>\<open>config:\<close> line was seen: after one, the line
  that follows the \<^verbatim>\<open>action:\<close> line is a device line, and the action text is the
  one of the \<^verbatim>\<open>action:\<close> line alone.
\<close>

theorem action_continuation_counterexample:
  "parseLines IsVdevGroup_kinds ResolveDeviceName_raw [] (ExportedZpool_zero\<lparr>Name := ''tank''\<rparr>)
      [[''config:''], [''action:'', ''none''], [''more'', ''text'']]
    = Inr ([\<lparr>Group = \<lparr>Vdev_Name = ''fileordisk'', Vdev_Health = ''''\<rparr>,
             Devices = [\<lparr>Vdev_Name = ''more'', Vdev_Health = ''text''\<rparr>]\<rparr>],
           \<lparr>Name = ''tank'', Id = '''', State = '''', Status = '''', Action = ''none'',
             Vdevs = [0]\<rparr>, 3)"
  by (simp add: parseLines_def scan_init_def parseLines_switch_def ExportedZpool_zero_def
      setString_def IsVdevGroup_kinds_def ResolveDeviceName_raw_def open_group_def Vdev_of_def
      append_device_def fileordisk_def)

subsection \<open>The scalar fields do not depend on the store\<close>

lemma agree_open_group: "agree (open_group g s) s"
  by (simp add: agree_def open_group_def)

lemma agree_add_device: "agree (add_device d s) s"
  by (simp add: agree_def add_device_def open_group_def append_device_def split: option.splits)

lemma agree_sym: "agree s t \<Longrightarrow> agree t s"
  by (simp add: agree_def)

lemma agree_trans: "agree s t \<Longrightarrow> agree t u \<Longrightarrow> agree s u"
  by (simp add: agree_def)

lemma switch_structural_returns:
  assumes "is_plain (Name (ez s)) l" "\<not> (actionFound s \<and> \<not> configFound s)" "2 \<le> length l"
  shows "\<exists>s1. parseLines_switch G R s l = Inr s1"
  using assms unfolding is_plain_def parseLines_switch_def
  by (auto simp: Let_def open_group_def split: option.splits)

lemma switch_agree:
  assumes "agree s t" "parseLines_switch G R s l = Inr s1" "l \<noteq> []" "l ! 0 \<noteq> ''pool:''"
  shows "\<exists>t1. parseLines_switch G R t l = Inr t1 \<and> agree s1 t1"
proof -
  from assms(1) have eqs: "Name (ez t) = Name (ez s)" "Id (ez t) = Id (ez s)"
    "State (ez t) = State (ez s)" "Status (ez t) = Status (ez s)"
    "Action (ez t) = Action (ez s)" "actionFound t = actionFound s"
    "configFound t = configFound s" "loc t = loc s"
    by (simp_all add: agree_def)
  show ?thesis
  proof (cases "is_plain (Name (ez s)) l \<and> \<not> (actionFound s \<and> \<not> configFound s)")
    case True
    then have pl: "is_plain (Name (ez s)) l" and fl: "\<not> (actionFound s \<and> \<not> configFound s)"
      by simp_all
    from switch_structural [OF pl fl assms(2)] have len: "2 \<le> length l"
      and s1: "s1 = (if is_group_line G l then open_group \<lparr>Group = Vdev_of R l, Devices = []\<rparr> s
                     else add_device (Vdev_of R l) s)" by simp_all
    from pl fl eqs have plt: "is_plain (Name (ez t)) l"
      and flt: "\<not> (actionFound t \<and> \<not> configFound t)" by simp_all
    from switch_structural_returns [OF plt flt len] obtain t1 where
      t1: "parseLines_switch G R t l = Inr t1" by blast
    from switch_structural [OF plt flt t1]
    have "t1 = (if is_group_line G l then open_group \<lparr>Group = Vdev_of R l, Devices = []\<rparr> t
                else add_device (Vdev_of R l) t)" by simp
    then have "agree t1 t" by (simp add: agree_open_group agree_add_device)
    moreover from s1 have "agree s1 s" by (simp add: agree_open_group agree_add_device)
    ultimately have "agree s1 t1" using assms(1) by (blast intro: agree_sym agree_trans)
    with t1 show ?thesis by blast
  next
    case False
    consider (id) "l ! 0 = ''id:''"
      | (state) "l ! 0 \<noteq> ''id:''" "l ! 0 = ''state:''"
      | (status) "l ! 0 \<noteq> ''id:''" "l ! 0 \<noteq> ''state:''" "l ! 0 = ''status:''"
      | (action) "l ! 0 \<noteq> ''id:''" "l ! 0 \<noteq> ''state:''" "l ! 0 \<noteq> ''status:''"
          "l ! 0 = ''action:''"
      | (echo) "l ! 0 \<noteq> ''id:''" "l ! 0 \<noteq> ''state:''" "l ! 0 \<noteq> ''status:''"
          "l ! 0 \<noteq> ''action:''" "l ! 0 = Name (ez s)"
      | (config) "l ! 0 \<noteq> ''id:''" "l ! 0 \<noteq> ''state:''" "l ! 0 \<noteq> ''status:''"
          "l ! 0 \<noteq> ''action:''" "l ! 0 \<noteq> Name (ez s)" "l ! 0 = ''config:''"
      | (cont) "l ! 0 \<noteq> ''id:''" "l ! 0 \<noteq> ''state:''" "l ! 0 \<noteq> ''status:''"
          "l ! 0 \<noteq> ''action:''" "l ! 0 \<noteq> Name (ez s)" "l ! 0 \<noteq> ''config:''"
          "actionFound s \<and> \<not> configFound s"
      using False assms(3,4) unfolding is_plain_def by blast
    then show ?thesis
    proof cases
      case id
      with assms(2) show ?thesis
        by (auto simp: parseLines_switch_def agree_def eqs split: if_splits)
    next
      case state
      with assms(2) show ?thesis
        by (auto simp: parseLines_switch_def agree_def eqs)
    next
      case status
      with assms(2) show ?thesis
        by (auto simp: parseLines_switch_def agree_def eqs)
    next
      case action
      with assms(2) show ?thesis
        by (auto simp: parseLines_switch_def agree_def eqs)
    next
      case echo
      with assms(2) show ?thesis
        by (auto simp: parseLines_switch_def agree_def eqs)
    next
      case config
      with assms(2) show ?thesis
        by (auto simp: parseLines_switch_def agree_def eqs)
    next
      case cont
      with assms(2) show ?thesis
        by (auto simp: parseLines_switch_def agree_def eqs)
    qed
  qed
qed

lemma parseLines_loop_agree:
  assumes "agree s t" "parseLines_loop G R s ls = Inr (s', n)"
  shows "\<exists>t'. parseLines_loop G R t ls = Inr (t', n) \<and> agree s' t'"
  using assms
proof (induction ls arbitrary: s t)
  case Nil
  then show ?case by (auto simp: agree_def)
next
  case (Cons l ls)
  let ?s0 = "s\<lparr>loc := loc s + 1\<rparr>" and ?t0 = "t\<lparr>loc := loc t + 1\<rparr>"
  from Cons.prems(1) have ag0: "agree ?s0 ?t0" by (simp add: agree_def)
  consider (blank) "l = []" | (mark) "l \<noteq> []" "l ! 0 = ''pool:''"
    | (other) "l \<noteq> []" "l ! 0 \<noteq> ''pool:''" by blast
  then show ?case
  proof cases
    case blank
    with Cons.prems(2) have "parseLines_loop G R ?s0 ls = Inr (s', n)" by simp
    from Cons.IH [OF ag0 this] blank show ?thesis by simp
  next
    case mark
    with Cons.prems(2) have "s' = ?s0" "n = loc s" by auto
    with mark ag0 show ?thesis by (simp add: agree_def)
  next
    case other
    with Cons.prems(2) obtain s1 where
      sw: "parseLines_switch G R ?s0 l = Inr s1" and
      lp: "parseLines_loop G R s1 ls = Inr (s', n)"
      by (auto simp: Let_def split: sum.splits)
    from switch_agree [OF ag0 sw other] obtain t1 where
      t1: "parseLines_switch G R ?t0 l = Inr t1" and ag1: "agree s1 t1" by blast
    from Cons.IH [OF ag1 lp] t1 other show ?thesis by simp
  qed
qed

subsection \<open>The scan of one block inside a report\<close>

lemma parseLines_loop_loc_end:
  "list_all (\<lambda>l. \<not> is_block_start l) xs \<Longrightarrow> parseLines_loop G R s xs = Inr (s1, n) \<Longrightarrow>
   loc s1 = n"
proof (induction xs arbitrary: s)
  case Nil
  then show ?case by auto
next
  case (Cons l ls)
  then have ls: "list_all (\<lambda>l. \<not> is_block_start l) ls" by simp
  show ?case
  proof (cases "l = []")
    case True
    with Cons.prems(2) Cons.IH [OF ls] show ?thesis by simp
  next
    case False
    with Cons.prems(1) have "l ! 0 \<noteq> ''pool:''" by (simp add: is_block_start_def)
    with False Cons.prems(2) obtain s2 where
      "parseLines_loop G R s2 ls = Inr (s1, n)"
      by (auto simp: Let_def split: sum.splits)
    from Cons.IH [OF ls this] show ?thesis .
  qed
qed

lemma parseLines_block:
  assumes mf: "list_all (\<lambda>l. \<not> is_block_start l) body"
    and sc: "scannable name False False body"
    and rest: "rest = [] \<or> is_block_start (hd rest)"
  shows "\<exists>gs e1. parseLines G R h (ExportedZpool_zero\<lparr>Name := name\<rparr>) (body @ rest)
        = Inr (h @ gs, e1, length body) \<and>
      list_all (\<lambda>a. a < length (h @ gs)) (Vdevs e1) \<and>
      block_record G R name body = Some (record_content (h @ gs) e1)"
proof -
  let ?e0 = "ExportedZpool_zero\<lparr>Name := name\<rparr> :: nat ExportedZpool"
  let ?s0 = "scan_init h ?e0" and ?t0 = "scan_init [] ?e0"
  let ?gs = "groups_of G R (structural_lines name False False body)"
  have fbs: "first_block_start body = length body"
    by (simp add: first_block_start_def block_of_all [OF mf])
  from sc have "scannable (Name (ez ?s0)) (actionFound ?s0) (configFound ?s0) body"
    by (simp add: scan_init_def)
  from parseLines_loop_returns [OF this, of G R] fbs obtain s1 where
    ls: "parseLines_loop G R ?s0 body = Inr (s1, length body)" by (auto simp: scan_init_def)
  have "\<And>a. curVdevGroup ?s0 = Some a \<Longrightarrow> a < length (heap ?s0)" by (simp add: scan_init_def)
  from parseLines_loop_store [OF ls this]
  have hs: "heap s1 = h @ ?gs" and vs: "Vdevs (ez s1) = [length h ..< length h + length ?gs]"
    by (simp_all add: scan_init_def heap_after_def ExportedZpool_zero_def)
  from parseLines_loop_loc_end [OF mf ls] have loc1: "loc s1 = length body" .
  have "\<exists>s2. parseLines_loop G R s1 rest = Inr (s2, length body) \<and> heap s2 = heap s1 \<and> ez s2 = ez s1"
  proof (cases rest)
    case Nil
    with loc1 show ?thesis by simp
  next
    case (Cons m r)
    with rest have "m \<noteq> []" "m ! 0 = ''pool:''" by (simp_all add: is_block_start_def)
    with Cons loc1 show ?thesis by simp
  qed
  with parseLines_loop_append [OF mf, of G R ?s0 rest] ls
  have whole: "parseLines G R h ?e0 (body @ rest) = Inr (heap s1, ez s1, length body)"
    by (auto simp: parseLines_def)
  have "agree ?s0 ?t0" by (simp add: agree_def scan_init_def)
  from parseLines_loop_agree [OF this ls] obtain t1 where
    lt: "parseLines_loop G R ?t0 body = Inr (t1, length body)" and ag: "agree s1 t1" by blast
  have "\<And>a. curVdevGroup ?t0 = Some a \<Longrightarrow> a < length (heap ?t0)" by (simp add: scan_init_def)
  from parseLines_loop_store [OF lt this]
  have ht: "heap t1 = ?gs" and vt: "Vdevs (ez t1) = [0 ..< length ?gs]"
    by (simp_all add: scan_init_def heap_after_def ExportedZpool_zero_def)
  have g1: "groups_in (h @ ?gs) (ez s1) = ?gs"
    unfolding groups_in_def vs by (rule map_nth_append_upt)
  have g2: "groups_in ?gs (ez t1) = ?gs"
    unfolding groups_in_def vt by (rule map_nth)
  from lt ht have "block_record G R name body = Some (record_content ?gs (ez t1))"
    by (simp add: block_record_def parseLines_def)
  also from ag g1 g2 have "record_content ?gs (ez t1) = record_content (h @ ?gs) (ez s1)"
    by (simp add: record_content_def agree_def)
  finally have br: "block_record G R name body = Some (record_content (h @ ?gs) (ez s1))" .
  have "list_all (\<lambda>a. a < length (h @ ?gs)) (Vdevs (ez s1))"
    unfolding vs by (simp add: list_all_iff)
  with whole br hs show ?thesis by auto
qed

subsection \<open>The driver over a report of blocks\<close>

lemma ListExportedZpools_loop_shift:
  "ListExportedZpools_loop G R (pre @ out) (length pre + i) h pools
     = ListExportedZpools_loop G R out i h pools"
proof (induction G R out i h pools rule: ListExportedZpools_loop.induct)
  case (1 G R out i h pools)
  note L = ListExportedZpools_loop.simps [of G R "pre @ out" "length pre + i" h pools]
  note E = ListExportedZpools_loop.simps [of G R out i h pools]
  show ?case
  proof (cases "i < length out")
    case False
    then show ?thesis by (simp only: L E) (simp del: ListExportedZpools_loop.simps)
  next
    case True
    have nth: "(pre @ out) ! (length pre + i) = out ! i" by simp
    have dr: "drop (length pre + i + 1) (pre @ out) = drop (i + 1) out" by simp
    from True have lt: "length pre + i < length (pre @ out)" by simp
    consider (blank) "length (out ! i) = 0"
      | (short) "length (out ! i) \<noteq> 0" "out ! i ! 0 = ''pool:''" "length (out ! i) \<le> 1"
      | (mark) "length (out ! i) \<noteq> 0" "out ! i ! 0 = ''pool:''" "\<not> length (out ! i) \<le> 1"
      | (skip) "length (out ! i) \<noteq> 0" "out ! i ! 0 \<noteq> ''pool:''" by blast
    then show ?thesis
    proof cases
      case blank
      with True lt show ?thesis by (simp only: L E nth) (simp del: ListExportedZpools_loop.simps)
    next
      case short
      with True lt show ?thesis by (simp only: L E nth) (simp del: ListExportedZpools_loop.simps)
    next
      case mark
      show ?thesis
      proof (cases "parseLines G R h (ExportedZpool_zero\<lparr>Name := out ! i ! 1\<rparr>) (drop (i + 1) out)")
        case (Inl e)
        with True lt mark show ?thesis by (simp only: L E nth dr) (simp del: ListExportedZpools_loop.simps)
      next
        case (Inr x)
        obtain h1 e1 n where x: "x = (h1, e1, n)" by (cases x) auto
        from "1.IH"(1) [OF True mark(1,2,3) Inr, of h1 "(e1, n)" e1 n] x
        have "ListExportedZpools_loop G R (pre @ out) (length pre + (i + n + 1)) h1 (pools @ [e1])
            = ListExportedZpools_loop G R out (i + n + 1) h1 (pools @ [e1])" by simp
        moreover have "length pre + i + n + 1 = length pre + (i + n + 1)" by simp
        ultimately show ?thesis using True lt mark Inr x
          by (simp only: L E nth dr) (simp del: ListExportedZpools_loop.simps add: add.assoc)
      qed
    next
      case skip
      from "1.IH"(2) [OF True skip(1,2)]
      have "ListExportedZpools_loop G R (pre @ out) (length pre + (i + 1)) h pools
          = ListExportedZpools_loop G R out (i + 1) h pools" .
      moreover have "length pre + i + 1 = length pre + (i + 1)" by simp
      ultimately show ?thesis using True lt skip by (simp only: L E nth) (simp del: ListExportedZpools_loop.simps)
    qed
  qed
qed

lemma record_content_append:
  "list_all (\<lambda>a. a < length h) (Vdevs e) \<Longrightarrow> record_content (h @ ext) e = record_content h e"
  by (simp add: record_content_def groups_in_def map_nth_append_old)

lemma report_of_rest: "list_all block_ok bs \<Longrightarrow> report_of bs = [] \<or> is_block_start (hd (report_of bs))"
  by (cases bs) (simp_all add: report_of_def block_ok_def)

lemma ListExportedZpools_loop_blocks:
  assumes "list_all block_ok blocks"
  shows "\<exists>ext ps. ListExportedZpools_loop G R (report_of blocks) 0 h pools
        = Inr (h @ ext, pools @ ps) \<and>
      list_all (\<lambda>e. list_all (\<lambda>a. a < length (h @ ext)) (Vdevs e)) ps \<and>
      map (\<lambda>e. Some (record_content (h @ ext) e)) ps
        = map (\<lambda>b. block_record G R (fst b ! 1) (snd b)) blocks"
  using assms
proof (induction blocks arbitrary: h pools)
  case Nil
  have "ListExportedZpools_loop G R (report_of []) 0 h pools = Inr (h @ [], pools @ [])"
    by (simp add: report_of_def)
  then show ?case by (intro exI [of _ "[]"]) simp
next
  case (Cons b bs)
  let ?m = "fst b" and ?body = "snd b"
  let ?out = "report_of (b # bs)"
  from Cons.prems have ok: "block_ok b" and oks: "list_all block_ok bs" by simp_all
  from ok have m: "?m \<noteq> []" "?m ! 0 = ''pool:''" "2 \<le> length ?m"
    and mf: "list_all (\<lambda>l. \<not> is_block_start l) ?body"
    and sc: "scannable (?m ! 1) False False ?body"
    by (simp_all add: block_ok_def is_block_start_def)
  have out: "?out = (?m # ?body) @ report_of bs" by (simp add: report_of_def)
  from parseLines_block [OF mf sc report_of_rest [OF oks], of G R h] obtain gs e1 where
    pl: "parseLines G R h (ExportedZpool_zero\<lparr>Name := ?m ! 1\<rparr>) (?body @ report_of bs)
         = Inr (h @ gs, e1, length ?body)"
    and v1: "list_all (\<lambda>a. a < length (h @ gs)) (Vdevs e1)"
    and br: "block_record G R (?m ! 1) ?body = Some (record_content (h @ gs) e1)"
    by blast
  from Cons.IH [OF oks, of "h @ gs" "pools @ [e1]"] obtain ext ps where
    lp: "ListExportedZpools_loop G R (report_of bs) 0 (h @ gs) (pools @ [e1])
         = Inr ((h @ gs) @ ext, (pools @ [e1]) @ ps)"
    and vs: "list_all (\<lambda>e. list_all (\<lambda>a. a < length ((h @ gs) @ ext)) (Vdevs e)) ps"
    and rc: "map (\<lambda>e. Some (record_content ((h @ gs) @ ext) e)) ps
         = map (\<lambda>b. block_record G R (fst b ! 1) (snd b)) bs"
    by blast
  have "ListExportedZpools_loop G R ?out 0 h pools
      = ListExportedZpools_loop G R ?out (length (?m # ?body)) (h @ gs) (pools @ [e1])"
    using m pl
    by (subst ListExportedZpools_loop.simps)
      (simp add: out del: ListExportedZpools_loop.simps)
  also have "\<dots> = ListExportedZpools_loop G R (report_of bs) 0 (h @ gs) (pools @ [e1])"
    using ListExportedZpools_loop_shift [of G R "?m # ?body" "report_of bs" 0]
    unfolding out by simp
  finally have whole: "ListExportedZpools_loop G R ?out 0 h pools
      = Inr (h @ (gs @ ext), pools @ (e1 # ps))"
    using lp by simp
  from v1 have v1': "list_all (\<lambda>a. a < length (h @ (gs @ ext))) (Vdevs e1)"
    by (auto simp: list_all_iff)
  from record_content_append [OF v1, of ext] br
  have c1: "Some (record_content (h @ (gs @ ext)) e1) = block_record G R (?m ! 1) ?body"
    by simp
  from whole v1' vs c1 rc show ?case
    by (intro exI [of _ "gs @ ext"] exI [of _ "e1 # ps"]) simp
qed

text \<open>
  Let both reports consist of back-to-back blocks, each a marker line with the name of
  the pool followed by scannable lines. Then \<^verbatim>\<open>ListExportedZpools\<close> returns one
  record per block, those of the first report before those of the second, in the order
  of the blocks; and the content of each record is the content of the record that the
  scanner builds from the lines of its own block alone.
\<close>

theorem ListExportedZpools_blocks:
  assumes "list_all block_ok blocks1" "list_all block_ok blocks2"
    and "zpoolOutput [''import''] w = (Inr (report_of blocks1), w1)"
    and "zpoolOutput [''import'', ''-D''] w1 = (Inr (report_of blocks2), w2)"
  shows "\<exists>h' pools. ListExportedZpools zpoolOutput G R h w = (Inr (h', pools), w2) \<and>
    map (\<lambda>e. Some (record_content h' e)) pools
      = map (\<lambda>b. block_record G R (fst b ! 1) (snd b)) (blocks1 @ blocks2)"
proof -
  from ListExportedZpools_loop_blocks [OF assms(1), of G R h "[]"] obtain ext1 ps1 where
    l1: "ListExportedZpools_loop G R (report_of blocks1) 0 h [] = Inr (h @ ext1, ps1)"
    and v1: "list_all (\<lambda>e. list_all (\<lambda>a. a < length (h @ ext1)) (Vdevs e)) ps1"
    and c1: "map (\<lambda>e. Some (record_content (h @ ext1) e)) ps1
         = map (\<lambda>b. block_record G R (fst b ! 1) (snd b)) blocks1"
    by (auto simp del: ListExportedZpools_loop.simps)
  from ListExportedZpools_loop_blocks [OF assms(2), of G R "h @ ext1" ps1] obtain ext2 ps2 where
    l2: "ListExportedZpools_loop G R (report_of blocks2) 0 (h @ ext1) ps1
         = Inr ((h @ ext1) @ ext2, ps1 @ ps2)"
    and c2: "map (\<lambda>e. Some (record_content ((h @ ext1) @ ext2) e)) ps2
         = map (\<lambda>b. block_record G R (fst b ! 1) (snd b)) blocks2"
    by (auto simp del: ListExportedZpools_loop.simps)
  have "map (\<lambda>e. Some (record_content ((h @ ext1) @ ext2) e)) ps1
      = map (\<lambda>e. Some (record_content (h @ ext1) e)) ps1"
  proof (intro map_cong refl)
    fix e
    assume "e \<in> set ps1"
    with v1 have "list_all (\<lambda>a. a < length (h @ ext1)) (Vdevs e)"
      by (simp add: list_all_iff)
    from record_content_append [OF this, of ext2]
    show "Some (record_content ((h @ ext1) @ ext2) e) = Some (record_content (h @ ext1) e)"
      by simp
  qed
  with c1 c2 have "map (\<lambda>e. Some (record_content ((h @ ext1) @ ext2) e)) (ps1 @ ps2)
      = map (\<lambda>b. block_record G R (fst b ! 1) (snd b)) (blocks1 @ blocks2)"
    by simp
  moreover from assms(3,4) l1 l2
  have "ListExportedZpools zpoolOutput G R h w = (Inr ((h @ ext1) @ ext2, ps1 @ ps2), w2)"
    by (simp add: ListExportedZpools_def del: ListExportedZpools_loop.simps)
  ultimately show ?thesis by blast
qed

text \<open>
  Two blocks in the first report, none in the second: two records, each with the
  fields of its own block.
\<close>

theorem ListExportedZpools_blocks_witness:
  "\<exists>h' pools.
     ListExportedZpools zpoolOutput_replay IsVdevGroup_kinds ResolveDeviceName_raw []
       ([], [Inr [[''pool:'', ''tank''], [''id:'', ''1''], [''state:'', ''ONLINE''], [''config:''],
                  [], [''tank'', ''ONLINE''], [''sda'', ''ONLINE''], [],
                  [''pool:'', ''dozer''], [''id:'', ''2''], [''state:'', ''FAULTED'']],
             Inr []])
       = (Inr (h', pools), ([[''import''], [''import'', ''-D'']], []))
     \<and> map (\<lambda>e. Some (record_content h' e)) pools
       = [Some \<lparr>Name = ''tank'', Id = ''1'', State = ''ONLINE'', Status = '''', Action = '''',
                Vdevs = [\<lparr>Group = \<lparr>Vdev_Name = ''fileordisk'', Vdev_Health = ''''\<rparr>,
                          Devices = [\<lparr>Vdev_Name = ''sda'', Vdev_Health = ''ONLINE''\<rparr>]\<rparr>]\<rparr>,
          Some \<lparr>Name = ''dozer'', Id = ''2'', State = ''FAULTED'', Status = '''', Action = '''',
                Vdevs = []\<rparr>]"
proof -
  let ?b1 = "([''pool:'', ''tank''],
              [[''id:'', ''1''], [''state:'', ''ONLINE''], [''config:''], [],
               [''tank'', ''ONLINE''], [''sda'', ''ONLINE''], []])"
  let ?b2 = "([''pool:'', ''dozer''], [[''id:'', ''2''], [''state:'', ''FAULTED'']])"
  have ok: "list_all block_ok [?b1, ?b2]" "list_all block_ok []"
    by (simp_all add: block_ok_def is_block_start_def scannable_def)
  have r1: "zpoolOutput_replay [''import''] ([], [Inr (report_of [?b1, ?b2]), Inr (report_of [])])
      = (Inr (report_of [?b1, ?b2]), ([[''import'']], [Inr (report_of [])]))"
    by (simp add: zpoolOutput_replay_def)
  have r2: "zpoolOutput_replay [''import'', ''-D''] ([[''import'']], [Inr (report_of [])])
      = (Inr (report_of []), ([[''import''], [''import'', ''-D'']], []))"
    by (simp add: zpoolOutput_replay_def)
  have b1: "block_record IsVdevGroup_kinds ResolveDeviceName_raw (fst ?b1 ! 1) (snd ?b1)
      = Some \<lparr>Name = ''tank'', Id = ''1'', State = ''ONLINE'', Status = '''', Action = '''',
                Vdevs = [\<lparr>Group = \<lparr>Vdev_Name = ''fileordisk'', Vdev_Health = ''''\<rparr>,
                          Devices = [\<lparr>Vdev_Name = ''sda'', Vdev_Health = ''ONLINE''\<rparr>]\<rparr>]\<rparr>"
    by (simp add: block_record_def parseLines_def scan_init_def parseLines_switch_def
        ExportedZpool_zero_def setString_def IsVdevGroup_kinds_def ResolveDeviceName_raw_def
        open_group_def append_device_def Vdev_of_def fileordisk_def record_content_def
        groups_in_def)
  have b2: "block_record IsVdevGroup_kinds ResolveDeviceName_raw (fst ?b2 ! 1) (snd ?b2)
      = Some \<lparr>Name = ''dozer'', Id = ''2'', State = ''FAULTED'', Status = '''', Action = '''',
                Vdevs = []\<rparr>"
    by (simp add: block_record_def parseLines_def scan_init_def parseLines_switch_def
        ExportedZpool_zero_def setString_def record_content_def groups_in_def)
  from ListExportedZpools_blocks [OF ok r1 r2, of IsVdevGroup_kinds ResolveDeviceName_raw "[]"]
  obtain h' pools where
    "ListExportedZpools zpoolOutput_replay IsVdevGroup_kinds ResolveDeviceName_raw []
       ([], [Inr (report_of [?b1, ?b2]), Inr (report_of [])])
       = (Inr (h', pools), ([[''import''], [''import'', ''-D'']], []))"
    "map (\<lambda>e. Some (record_content h' e)) pools
       = map (\<lambda>b. block_record IsVdevGroup_kinds ResolveDeviceName_raw (fst b ! 1) (snd b))
           ([?b1, ?b2] @ [])"
    by blast
  with b1 b2 show ?thesis by (simp add: report_of_def del: ListExportedZpools_loop.simps)
qed

text \<open>
  Claim C9. For every report of back-to-back blocks \<^verbatim>\<open>ListExportedZpools\<close> should
  return one record per block, in the order of the blocks, each filled from its own
  block. In the report below the second block has the one-token section line
  \<^verbatim>\<open>cache\<close>; the scanner reads \<^verbatim>\<open>line[1]\<close> of it without a check of the length
  and panics, and the call returns no record, the record of the first block included.
\<close>

theorem ListExportedZpools_one_token_line_panics:
  "ListExportedZpools zpoolOutput_replay IsVdevGroup_kinds ResolveDeviceName_raw []
     ([], [Inr [[''pool:'', ''tank''], [''id:'', ''1''], [''state:'', ''ONLINE''],
                [''pool:'', ''dozer''], [''id:'', ''2''], [''config:''],
                [''dozer'', ''ONLINE''], [''sdb'', ''ONLINE''], [''cache''], [''sdd'', ''ONLINE'']],
           Inr []])
     = (Inl Panic, ([[''import'']], [Inr []]))"
  by (simp add: ListExportedZpools_def zpoolOutput_replay_def parseLines_def scan_init_def
      parseLines_switch_def ExportedZpool_zero_def setString_def IsVdevGroup_kinds_def
      ResolveDeviceName_raw_def open_group_def append_device_def Vdev_of_def fileordisk_def)

subsection \<open>The earlier variant keeps no device\<close>

lemma parseLines_old_switch_no_device:
  "parseLines_old_switch G s line = Inr s1 \<Longrightarrow>
   \<exists>new. Vdevs (ez s1) = Vdevs (ez s) @ new \<and> list_all (\<lambda>g. Devices g = []) new"
  by (auto simp: parseLines_old_switch_def append_device_def Let_def
      split: if_splits option.splits)

lemma parseLines_old_loop_no_device:
  "parseLines_old_loop G s lines = Inr (s', n) \<Longrightarrow>
   \<exists>new. Vdevs (ez s') = Vdevs (ez s) @ new \<and> list_all (\<lambda>g. Devices g = []) new"
proof (induction lines arbitrary: s)
  case Nil
  then show ?case by auto
next
  case (Cons l ls)
  let ?s0 = "s\<lparr>loc := loc s + 1\<rparr>"
  consider (blank) "l = []" | (mark) "l \<noteq> []" "l ! 0 = ''pool:''"
    | (other) "l \<noteq> []" "l ! 0 \<noteq> ''pool:''" by blast
  then show ?case
  proof cases
    case blank
    with Cons.prems have "parseLines_old_loop G ?s0 ls = Inr (s', n)" by simp
    from Cons.IH [OF this] show ?thesis by simp
  next
    case mark
    with Cons.prems have "s' = ?s0" by auto
    then show ?thesis by simp
  next
    case other
    with Cons.prems obtain s1 where
      sw: "parseLines_old_switch G ?s0 l = Inr s1" and
      lp: "parseLines_old_loop G s1 ls = Inr (s', n)"
      by (auto simp: Let_def split: sum.splits)
    from parseLines_old_switch_no_device [OF sw] obtain new1 where
      n1: "Vdevs (ez s1) = Vdevs (ez s) @ new1" "list_all (\<lambda>g. Devices g = []) new1" by auto
    from Cons.IH [OF lp] obtain new2 where
      n2: "Vdevs (ez s') = Vdevs (ez s1) @ new2" "list_all (\<lambda>g. Devices g = []) new2" by auto
    from n1 n2 have "Vdevs (ez s') = Vdevs (ez s) @ (new1 @ new2)"
      "list_all (\<lambda>g. Devices g = []) (new1 @ new2)" by simp_all
    then show ?thesis by blast
  qed
qed

text \<open>
  Claim C10. In the earlier variant of \<^verbatim>\<open>zpool.go\<close>, for every input on which the
  scan returns, the record after the scan has the groups it had before, followed by
  groups with an empty device list: a group is copied into the record when it is
  opened, and the device lines that follow change the group in the store only. The
  driver passes the zero record, so that every group of the record it gets back has
  an empty device list.
\<close>

theorem parseLines_old_no_device:
  "parseLines_old G h e lines = Inr (h', e', n) \<Longrightarrow>
   \<exists>new. Vdevs e' = Vdevs e @ new \<and> list_all (\<lambda>g. Devices g = []) new"
proof -
  assume "parseLines_old G h e lines = Inr (h', e', n)"
  then obtain s' where
    lp: "parseLines_old_loop G
           \<lparr>ez = e, heap = h, curVdevGroup = None, actionFound = False, loc = 0\<rparr> lines
         = Inr (s', n)" and e': "e' = ez s'"
    by (auto simp: parseLines_old_def split: sum.splits)
  from parseLines_old_loop_no_device [OF lp] e' show ?thesis by simp
qed

text \<open>
  At one group line and two device lines, from the zero record as the driver names
  it: the store holds the group with its two devices, the record holds the copy
  without them.
\<close>

theorem parseLines_old_no_device_witness:
  "parseLines_old IsVdevGroup_kinds [] (ExportedZpool_zero\<lparr>Name := ''pool:''\<rparr>)
      [[''id:'', ''123''], [''mirror-0'', ''ONLINE''], [''sda'', ''ONLINE''], [''sdb'', ''DEGRADED'']]
    = Inr ([\<lparr>Group = \<lparr>Vdev_Name = ''mirror-0'', Vdev_Health = ''ONLINE''\<rparr>,
              Devices = [\<lparr>Vdev_Name = ''sda'', Vdev_Health = ''ONLINE''\<rparr>,
                         \<lparr>Vdev_Name = ''sdb'', Vdev_Health = ''DEGRADED''\<rparr>]\<rparr>],
            \<lparr>Name = ''pool:'', Id = ''123'', State = '''', Status = '''', Action = '''',
              Vdevs = [\<lparr>Group = \<lparr>Vdev_Name = ''mirror-0'', Vdev_Health = ''ONLINE''\<rparr>,
                        Devices = []\<rparr>]\<rparr>,
            4)
   \<and> list_all (\<lambda>g. Devices g = [])
        (Vdevs \<lparr>Name = ''pool:'', Id = ''123'', State = '''', Status = '''', Action = '''',
              Vdevs = [\<lparr>Group = \<lparr>Vdev_Name = ''mirror-0'', Vdev_Health = ''ONLINE''\<rparr>,
                        Devices = []\<rparr>]\<rparr>)"
proof -
  have r: "parseLines_old IsVdevGroup_kinds [] (ExportedZpool_zero\<lparr>Name := ''pool:''\<rparr>)
      [[''id:'', ''123''], [''mirror-0'', ''ONLINE''], [''sda'', ''ONLINE''], [''sdb'', ''DEGRADED'']]
    = Inr ([\<lparr>Group = \<lparr>Vdev_Name = ''mirror-0'', Vdev_Health = ''ONLINE''\<rparr>,
              Devices = [\<lparr>Vdev_Name = ''sda'', Vdev_Health = ''ONLINE''\<rparr>,
                         \<lparr>Vdev_Name = ''sdb'', Vdev_Health = ''DEGRADED''\<rparr>]\<rparr>],
            \<lparr>Name = ''pool:'', Id = ''123'', State = '''', Status = '''', Action = '''',
              Vdevs = [\<lparr>Group = \<lparr>Vdev_Name = ''mirror-0'', Vdev_Health = ''ONLINE''\<rparr>,
                        Devices = []\<rparr>]\<rparr>,
            4)"
    by (simp add: parseLines_old_def parseLines_old_switch_def ExportedZpool_zero_def
        setString_def IsVdevGroup_kinds_def append_device_def Let_def)
  from parseLines_old_no_device [OF r] r show ?thesis
    by (simp add: ExportedZpool_zero_def)
qed

end
